theory Spec2Isabelle
  imports Complex_Main "HOL-Library.Log_Nat"
begin

section \<open>Text: characters, classes and string primitives\<close>

text \<open>
  The validator of \<^verbatim>\<open>docs/validation/validate_links.py\<close> works on Python \<^verbatim>\<open>str\<close>
  values. A \<^typ>\<open>string\<close> stands for a Python string whose code points are all below 256,
  each \<^typ>\<open>char\<close> being one code point. The character classes below are the classes of
  Python's \<^verbatim>\<open>re\<close> module (Unicode mode, the default for \<^verbatim>\<open>str\<close> patterns) and of
  \<^verbatim>\<open>str.lower\<close>, \<^verbatim>\<open>str.strip\<close> on that range.
\<close>

definition code :: "char \<Rightarrow> nat" where
  "code c = of_char c"

text \<open>The class \<^verbatim>\<open>[A-Z]\<close>.\<close>

definition is_upper :: "char \<Rightarrow> bool" where
  "is_upper c = (65 \<le> code c \<and> code c \<le> 90)"

text \<open>The class \<^verbatim>\<open>\d\<close>: the decimal digits; below 256 these are \<^verbatim>\<open>0\<close> to \<^verbatim>\<open>9\<close> only.\<close>

definition is_digit :: "char \<Rightarrow> bool" where
  "is_digit c = (48 \<le> code c \<and> code c \<le> 57)"

text \<open>
  The class \<^verbatim>\<open>\s\<close>, which is also what \<^verbatim>\<open>str.strip()\<close> removes: tab, line feed,
  vertical tab, form feed, carriage return, the separators 28 to 31, space, NEL (133)
  and the no-break space (160).
\<close>

definition is_space :: "char \<Rightarrow> bool" where
  "is_space c = ((9 \<le> code c \<and> code c \<le> 13) \<or> (28 \<le> code c \<and> code c \<le> 32)
                  \<or> code c = 133 \<or> code c = 160)"

text \<open>The class \<^verbatim>\<open>\w\<close>: alphanumeric characters and the underscore.\<close>

definition is_word :: "char \<Rightarrow> bool" where
  "is_word c = ((48 \<le> code c \<and> code c \<le> 57) \<or> (65 \<le> code c \<and> code c \<le> 90)
                 \<or> code c = 95 \<or> (97 \<le> code c \<and> code c \<le> 122)
                 \<or> code c = 170 \<or> code c = 178 \<or> code c = 179 \<or> code c = 181
                 \<or> code c = 185 \<or> code c = 186
                 \<or> (188 \<le> code c \<and> code c \<le> 190)
                 \<or> (192 \<le> code c \<and> code c \<le> 214)
                 \<or> (216 \<le> code c \<and> code c \<le> 246)
                 \<or> (248 \<le> code c \<and> code c \<le> 255))"

text \<open>\<^verbatim>\<open>str.lower()\<close>, one character at a time.\<close>

definition lower_char :: "char \<Rightarrow> char" where
  "lower_char c =
     (if (65 \<le> code c \<and> code c \<le> 90) \<or> (192 \<le> code c \<and> code c \<le> 222 \<and> code c \<noteq> 215)
      then char_of (code c + 32) else c)"

definition lower :: "string \<Rightarrow> string" where
  "lower s = map lower_char s"

text \<open>\<^verbatim>\<open>str.strip()\<close>: white space removed at both ends.\<close>

definition strip :: "string \<Rightarrow> string" where
  "strip s = dropWhile is_space (rev (dropWhile is_space (rev s)))"

text \<open>\<^verbatim>\<open>sub in s\<close> on strings: \<open>sub\<close> occurs in \<open>s\<close> as a contiguous block.\<close>

fun starts_with :: "string \<Rightarrow> string \<Rightarrow> bool" where
  "starts_with [] s = True"
| "starts_with (p # ps) [] = False"
| "starts_with (p # ps) (c # cs) = (p = c \<and> starts_with ps cs)"

fun contains :: "string \<Rightarrow> string \<Rightarrow> bool" where
  "contains sub [] = (sub = [])"
| "contains sub (c # cs) = (starts_with sub (c # cs) \<or> contains sub cs)"

text \<open>\<^verbatim>\<open>sep.join(parts)\<close>.\<close>

fun join :: "string \<Rightarrow> string list \<Rightarrow> string" where
  "join sep [] = []"
| "join sep [p] = p"
| "join sep (p # q # ps) = p @ sep @ join sep (q # ps)"

section \<open>The regular expressions\<close>

text \<open>
  Each pattern of the source is a matcher that tries the pattern at the head of the text
  and returns the captured groups with the number of characters matched.
  \<^verbatim>\<open>re.finditer\<close> runs a matcher from left to right: where it matches, the scan goes
  on behind the match; where it does not, one character further. None of the patterns
  matches the empty string.
\<close>

fun finditer :: "(string \<Rightarrow> ('a \<times> nat) option) \<Rightarrow> string \<Rightarrow> 'a list" where
  "finditer m [] = []"
| "finditer m (c # cs) =
     (case m (c # cs) of
        None \<Rightarrow> finditer m cs
      | Some (g, n) \<Rightarrow> g # finditer m (drop (n - 1) cs))"

text \<open>
  \<^verbatim>\<open>re.sub(pattern, repl, s)\<close> with the same scan: the text between the matches is kept,
  each match is replaced.
\<close>

fun re_sub :: "(string \<Rightarrow> ('a \<times> nat) option) \<Rightarrow> ('a \<Rightarrow> string) \<Rightarrow> string \<Rightarrow> string" where
  "re_sub m f [] = []"
| "re_sub m f (c # cs) =
     (case m (c # cs) of
        None \<Rightarrow> c # re_sub m f cs
      | Some (g, n) \<Rightarrow> f g @ re_sub m f (drop (n - 1) cs))"

text \<open>
  \<^verbatim>\<open>\[([A-Z]+-[A-Z]+-\d+)\]\<close>: a bracketed requirement identifier; group 1 is the
  identifier. The classes exclude the separators, so the greedy runs never give back.
\<close>

definition req_match :: "string \<Rightarrow> (string \<times> nat) option" where
  "req_match s =
     (case s of
        [] \<Rightarrow> None
      | b # r \<Rightarrow>
          if b \<noteq> CHR ''['' then None
          else let p = takeWhile is_upper r; r1 = dropWhile is_upper r
               in if p = [] \<or> \<not> starts_with ''-'' r1 then None
                  else let c = takeWhile is_upper (tl r1); r2 = dropWhile is_upper (tl r1)
                       in if c = [] \<or> \<not> starts_with ''-'' r2 then None
                          else let d = takeWhile is_digit (tl r2); r3 = dropWhile is_digit (tl r2)
                               in if d = [] \<or> \<not> starts_with '']'' r3 then None
                                  else Some (p @ ''-'' @ c @ ''-'' @ d,
                                             length p + length c + length d + 4))"

text \<open>
  \<^verbatim>\<open>\[([^\]]+)\]\(([^)]+)\)\<close>: an inline link; group 1 is the link text, group 2 the
  target.
\<close>

definition link_match :: "string \<Rightarrow> ((string \<times> string) \<times> nat) option" where
  "link_match s =
     (case s of
        [] \<Rightarrow> None
      | b # r \<Rightarrow>
          if b \<noteq> CHR ''['' then None
          else let t = takeWhile (\<lambda>c. c \<noteq> CHR '']'') r; r1 = dropWhile (\<lambda>c. c \<noteq> CHR '']'') r
               in if t = [] \<or> \<not> starts_with ''](''  r1 then None
                  else let g = takeWhile (\<lambda>c. c \<noteq> CHR '')'') (drop 2 r1);
                           r2 = dropWhile (\<lambda>c. c \<noteq> CHR '')'') (drop 2 r1)
                       in if g = [] \<or> \<not> starts_with '')'' r2 then None
                          else Some ((t, g), length t + length g + 4))"

text \<open>\<^verbatim>\<open>(DBD-[A-Z]+-\d+|SRC-[A-Z]+-\d+)\<close>: a bare identifier of the two watched families.\<close>

definition orphan_match :: "string \<Rightarrow> (string \<times> nat) option" where
  "orphan_match s =
     (if \<not> (starts_with ''DBD-'' s \<or> starts_with ''SRC-'' s) then None
      else let c = takeWhile is_upper (drop 4 s); r1 = dropWhile is_upper (drop 4 s)
           in if c = [] \<or> \<not> starts_with ''-'' r1 then None
              else let d = takeWhile is_digit (tl r1)
                   in if d = [] then None
                      else Some (take 4 s @ c @ ''-'' @ d, length c + length d + 5))"

text \<open>
  \<^verbatim>\<open>^#+\s+(.+)$\<close> with \<^verbatim>\<open>re.MULTILINE\<close>, tried at the start of a line; group 1 is the
  title. \<^verbatim>\<open>\s+\<close> also takes line feeds, so the title may stand on a later line. When the
  white space runs to the end of the text, \<^verbatim>\<open>\s+\<close> gives back characters until
  \<^verbatim>\<open>.+\<close> finds one that is not a line feed: the title is then that single white-space
  character.
\<close>

definition header_match :: "string \<Rightarrow> (string \<times> nat) option" where
  "header_match s =
     (let h = takeWhile (\<lambda>c. c = CHR ''#'') s; r = dropWhile (\<lambda>c. c = CHR ''#'') s;
          ws = takeWhile is_space r; rest = dropWhile is_space r
      in if h = [] \<or> ws = [] then None
         else if rest \<noteq> [] then
           (let t = takeWhile (\<lambda>c. c \<noteq> CHR 0x0A) rest
            in Some (t, length h + length ws + length t))
         else
           (let ws2 = dropWhile (\<lambda>c. c = CHR 0x0A) (rev ws)
            in if 2 \<le> length ws2 then Some ([hd ws2], length h + length ws2) else None))"

text \<open>
  The scan for headers: \<^verbatim>\<open>^\<close> holds at the start of the text and behind each line feed.
  A match ends behind a character of its title, which is no line feed.
\<close>

fun header_scan :: "bool \<Rightarrow> string \<Rightarrow> string list" where
  "header_scan bol [] = []"
| "header_scan bol (c # cs) =
     (case (if bol then header_match (c # cs) else None) of
        None \<Rightarrow> header_scan (c = CHR 0x0A) cs
      | Some (g, n) \<Rightarrow> g # header_scan False (drop (n - 1) cs))"

section \<open>The anchor and requirement indexes\<close>

text \<open>
  The two substitutions of \<^verbatim>\<open>extract_anchors_from_file\<close> that turn a header title into
  its anchor: \<^verbatim>\<open>re.sub(r'[^\w\s-]', '', header.lower())\<close>, then
  \<^verbatim>\<open>re.sub(r'\s+', '-', anchor.strip())\<close>.
\<close>

definition remove_special :: "string \<Rightarrow> string" where
  "remove_special s = filter (\<lambda>c. is_word c \<or> is_space c \<or> c = CHR ''-'') s"

function spaces_to_hyphen :: "string \<Rightarrow> string" where
  "spaces_to_hyphen [] = []"
| "spaces_to_hyphen (c # cs) =
     (if is_space c then CHR ''-'' # spaces_to_hyphen (dropWhile is_space cs)
      else c # spaces_to_hyphen cs)"
  by pat_completeness auto
termination
  by (relation "measure length") (auto simp: less_Suc_eq_le length_dropWhile_le)

definition header_anchor :: "string \<Rightarrow> string" where
  "header_anchor header = spaces_to_hyphen (strip (remove_special (lower header)))"

definition find_requirement_references :: "string \<Rightarrow> string list" where
  "find_requirement_references content = finditer req_match content"

definition extract_anchors_from_file :: "string \<Rightarrow> string set" where
  "extract_anchors_from_file content =
     set (map header_anchor (header_scan True content)
          @ concat (map (\<lambda>req_id. [lower req_id, req_id]) (finditer req_match content)))"

definition extract_requirement_ids_from_file :: "string \<Rightarrow> string set" where
  "extract_requirement_ids_from_file content = set (finditer req_match content)"

section \<open>The validator\<close>

text \<open>
  A file of the documentation directory is its name with the text that \<^verbatim>\<open>read_text\<close>
  returns; the directory is read as one snapshot.
\<close>

type_synonym path = "string \<times> string"

record broken_link =
  bl_file :: string
  bl_link_text :: string
  bl_link_target :: string
  bl_error :: string

record invalid_requirement_id =
  ir_file :: string
  ir_requirement_id :: string
  ir_error :: string

record orphaned_reference =
  or_file :: string
  or_reference :: string

text \<open>
  The fields of \<^verbatim>\<open>LinkValidator\<close>. The dictionary \<^verbatim>\<open>documents_with_issues\<close> is a list
  of keys with their values in the order in which the keys were first written, which is the
  order in which Python iterates over a dictionary.
\<close>

record validator =
  all_files :: "path list"
  file_names :: "string set"
  total_links :: nat
  valid_links :: nat
  broken_links :: "broken_link list"
  invalid_requirement_ids :: "invalid_requirement_id list"
  missing_anchors :: "string list"
  orphaned_references :: "orphaned_reference list"
  documents_with_issues :: "(string \<times> string list) list"
  critical_issues :: "string list"
  warnings :: "string list"
  requirement_ids :: "string \<rightharpoonup> string set"
  anchors :: "string \<rightharpoonup> string set"

text \<open>\<^verbatim>\<open>__init__\<close>, given the files that \<^verbatim>\<open>docs_dir.glob("*.md")\<close> lists.\<close>

definition init :: "path list \<Rightarrow> validator" where
  "init files =
     \<lparr> all_files = files, file_names = set (map fst files),
       total_links = 0, valid_links = 0, broken_links = [], invalid_requirement_ids = [],
       missing_anchors = [], orphaned_references = [], documents_with_issues = [],
       critical_issues = [], warnings = [],
       requirement_ids = Map.empty, anchors = Map.empty \<rparr>"

definition cache_file :: "path \<Rightarrow> validator \<Rightarrow> validator" where
  "cache_file file_path v =
     v \<lparr> anchors := (anchors v)(fst file_path \<mapsto> extract_anchors_from_file (snd file_path)),
         requirement_ids :=
           (requirement_ids v)(fst file_path \<mapsto> extract_requirement_ids_from_file (snd file_path)) \<rparr>"

definition cache_all_anchors_and_ids :: "validator \<Rightarrow> validator" where
  "cache_all_anchors_and_ids v = fold cache_file (all_files v) v"

text \<open>
  \<^verbatim>\<open>link_target.split('#', 1)\<close> when the target holds a \<^verbatim>\<open>#\<close>; otherwise the anchor
  part is \<^verbatim>\<open>None\<close>.
\<close>

definition split_target :: "string \<Rightarrow> string \<times> string option" where
  "split_target link_target =
     (if CHR ''#'' \<in> set link_target
      then (takeWhile (\<lambda>c. c \<noteq> CHR ''#'') link_target,
            Some (tl (dropWhile (\<lambda>c. c \<noteq> CHR ''#'') link_target)))
      else (link_target, None))"

text \<open>The test \<^verbatim>\<open>if anchor_part:\<close> holds for a string that is neither \<^verbatim>\<open>None\<close> nor empty.\<close>

definition truthy :: "string option \<Rightarrow> bool" where
  "truthy x = (case x of None \<Rightarrow> False | Some s \<Rightarrow> s \<noteq> [])"

definition validate_link :: "validator \<Rightarrow> string \<Rightarrow> string \<Rightarrow> string \<Rightarrow> bool \<times> string" where
  "validate_link v source_file link_text link_target =
     (let file_part = fst (split_target link_target);
          anchor_part = snd (split_target link_target);
          target_file = (if file_part = [] then source_file else file_part)
      in if target_file \<notin> file_names v
         then (False, ''Target file not found: '' @ target_file)
         else if truthy anchor_part then
           (case anchors v target_file of
              None \<Rightarrow> (False, ''No anchors cached for '' @ target_file)
            | Some cached \<Rightarrow>
                if the anchor_part \<notin> cached
                then (False, ''Anchor #'' @ the anchor_part @ '' not found in '' @ target_file)
                else (True, []))
         else (True, []))"

definition is_external :: "string \<Rightarrow> bool" where
  "is_external link_target =
     (starts_with ''http://'' link_target \<or> starts_with ''https://'' link_target)"

definition extract_links_from_file :: "string \<Rightarrow> (string \<times> string) list" where
  "extract_links_from_file content =
     filter (\<lambda>l. \<not> is_external (snd l)) (finditer link_match content)"

text \<open>
  The values of \<^verbatim>\<open>file_map\<close> are a file name or a list of file names.
\<close>

datatype expected = One string | Many "string list"

definition file_map :: "(string \<times> expected) list" where
  "file_map =
     [(''REQ'', One ''REQ001-requirements.md''),
      (''GOV'', Many [''GOV001-document_hierarchy.md'', ''GOV002-requirements_enumeration.md'',
                      ''GOV003-filename_convention.md'']),
      (''ARCH'', One ''SPEC001-architecture.md''),
      (''XFD'', One ''SPEC002-crossfade.md''),
      (''FLV'', One ''SPEC003-musical_flavor.md''),
      (''API'', One ''SPEC007-api_design.md''),
      (''DBD'', One ''SPEC016-decoder_buffer_design.md''),
      (''SRC'', One ''SPEC017-sample_rate_conversion.md''),
      (''VOL'', One ''SPEC013-single_stream_playback.md''),
      (''SSP'', One ''SPEC014-single_stream_design.md''),
      (''DB'', One ''IMPL001-database_schema.md'')]"

text \<open>
  The prefix \<^verbatim>\<open>req_id.split('-')[0]\<close>, and \<^verbatim>\<open>file_map.get(prefix, [])\<close> with a
  single name wrapped into a list.
\<close>

definition prefix_of :: "string \<Rightarrow> string" where
  "prefix_of req_id = takeWhile (\<lambda>c. c \<noteq> CHR ''-'') req_id"

definition expected_files :: "string \<Rightarrow> string list" where
  "expected_files req_id =
     (case map_of file_map (prefix_of req_id) of
        None \<Rightarrow> []
      | Some (One f) \<Rightarrow> [f]
      | Some (Many fs) \<Rightarrow> fs)"

definition found_in :: "validator \<Rightarrow> string \<Rightarrow> string \<Rightarrow> bool" where
  "found_in v req_id expected_file =
     (case requirement_ids v expected_file of None \<Rightarrow> False | Some ids \<Rightarrow> req_id \<in> ids)"

definition validate_requirement_reference :: "validator \<Rightarrow> string \<Rightarrow> bool \<times> string" where
  "validate_requirement_reference v req_id =
     (if expected_files req_id = [] then (True, [])
      else if list_ex (found_in v req_id) (expected_files req_id) then (True, [])
      else (False, ''Requirement ID '' @ req_id @ '' not found in expected file(s): ''
                   @ join '', '' (expected_files req_id)))"

definition find_orphaned_references :: "string \<Rightarrow> string list" where
  "find_orphaned_references content = finditer orphan_match (re_sub link_match fst content)"

text \<open>\<^verbatim>\<open>documents_with_issues[file].append(error)\<close> on a \<^verbatim>\<open>defaultdict(list)\<close>.\<close>

fun append_issue :: "string \<Rightarrow> string \<Rightarrow> (string \<times> string list) list \<Rightarrow> (string \<times> string list) list" where
  "append_issue file error [] = [(file, [error])]"
| "append_issue file error ((k, es) # d) =
     (if k = file then (k, es @ [error]) # d else (k, es) # append_issue file error d)"

text \<open>The three loops of \<^verbatim>\<open>validate_all\<close> over one file, one iteration each.\<close>

definition check_link :: "string \<Rightarrow> string \<times> string \<Rightarrow> validator \<Rightarrow> validator" where
  "check_link file l v =
     (let v1 = v \<lparr> total_links := total_links v + 1 \<rparr>;
          res = validate_link v1 file (fst l) (snd l)
      in if fst res then v1 \<lparr> valid_links := valid_links v1 + 1 \<rparr>
         else
           (let v2 = v1 \<lparr> broken_links := broken_links v1 @
                           [\<lparr> bl_file = file, bl_link_text = fst l, bl_link_target = snd l,
                              bl_error = snd res \<rparr>],
                         documents_with_issues :=
                           append_issue file (snd res) (documents_with_issues v1) \<rparr>
            in if contains ''SPEC016'' (snd l) \<or> contains ''SPEC017'' (snd l)
               then v2 \<lparr> critical_issues := critical_issues v2 @ [file @ '': '' @ snd res] \<rparr>
               else v2))"

definition check_requirement :: "string \<Rightarrow> string \<Rightarrow> validator \<Rightarrow> validator" where
  "check_requirement file req_id v =
     (let res = validate_requirement_reference v req_id
      in if \<not> fst res
         then v \<lparr> invalid_requirement_ids := invalid_requirement_ids v @
                     [\<lparr> ir_file = file, ir_requirement_id = req_id, ir_error = snd res \<rparr>],
                   documents_with_issues :=
                     append_issue file (snd res) (documents_with_issues v) \<rparr>
         else v)"

definition record_orphan :: "string \<Rightarrow> string \<Rightarrow> validator \<Rightarrow> validator" where
  "record_orphan file ref v =
     v \<lparr> orphaned_references := orphaned_references v @ [\<lparr> or_file = file, or_reference = ref \<rparr>],
         warnings := warnings v @
           [file @ '': Orphaned reference '' @ ref @ '' (not in markdown link)''] \<rparr>"

definition check_file :: "path \<Rightarrow> validator \<Rightarrow> validator" where
  "check_file file_path v =
     (let v1 = fold (check_link (fst file_path)) (extract_links_from_file (snd file_path)) v;
          v2 = fold (check_requirement (fst file_path))
                 (find_requirement_references (snd file_path)) v1
      in fold (record_orphan (fst file_path)) (find_orphaned_references (snd file_path)) v2)"

section \<open>The report\<close>

text \<open>
  Python's \<^verbatim>\<open>float\<close> is IEEE 754 binary64. Its values are rationals, and each operation
  returns the exact result rounded to the nearest value with a significand of 53 bits, a tie
  going to the even significand. \<open>ilog2 x\<close> is the exponent of \<open>x > 0\<close>: the integer \<open>e\<close>
  with \<open>2\<^sup>e \<le> x < 2\<^sup>e\<^sup>+\<^sup>1\<close>. Below \<open>2\<^sup>-\<^sup>1\<^sup>0\<^sup>2\<^sup>2\<close> the spacing stays that of the
  subnormal numbers. Overflow is left out: the numbers rounded here are at most 100.
\<close>

definition ilog2 :: "real \<Rightarrow> int" where
  "ilog2 x =
     (if 1 \<le> x then int (floorlog 2 (nat \<lfloor>x\<rfloor>)) - 1
      else - int (floorlog 2 (nat (\<lceil>1 / x\<rceil> - 1))))"

definition round_half_even :: "real \<Rightarrow> int" where
  "round_half_even x =
     (let f = \<lfloor>x\<rfloor>; r = x - of_int f
      in if r < 1 / 2 then f
         else if 1 / 2 < r then f + 1
         else if even f then f else f + 1)"

definition round_double :: "real \<Rightarrow> real" where
  "round_double x =
     (if x = 0 then 0
      else let p = max (ilog2 \<bar>x\<bar>) (- 1022) - 52
           in of_int (round_half_even (x / 2 powi p)) * 2 powi p)"

text \<open>\<^verbatim>\<open>a / b\<close> on two integers (true division, correctly rounded), \<^verbatim>\<open>x * y\<close> on floats
  and \<^verbatim>\<open>int(x)\<close>, which truncates towards zero.\<close>

definition true_div :: "nat \<Rightarrow> nat \<Rightarrow> real" where
  "true_div a b = round_double (real a / real b)"

definition float_mul :: "real \<Rightarrow> real \<Rightarrow> real" where
  "float_mul x y = round_double (x * y)"

definition int_of_float :: "real \<Rightarrow> int" where
  "int_of_float x = (if 0 \<le> x then \<lfloor>x\<rfloor> else \<lceil>x\<rceil>)"

text \<open>
  \<^verbatim>\<open>sorted(items, key=lambda x: len(x[1]), reverse=True)\<close>: Python's sort is stable, also
  with \<^verbatim>\<open>reverse=True\<close>, so entries with as many issues keep their order.
\<close>

definition sorted_by_issues :: "(string \<times> string list) list \<Rightarrow> (string \<times> string list) list" where
  "sorted_by_issues items = sort_key (\<lambda>x. - int (length (snd x))) items"

record summary =
  s_total_files_checked :: nat
  s_total_links :: nat
  s_valid_links :: nat
  s_broken_links_count :: nat
  s_invalid_req_ids_count :: nat
  s_orphaned_refs_count :: nat
  s_critical_issues_count :: nat
  s_warnings_count :: nat
  s_health_score :: int

record report =
  r_total_links_checked :: nat
  r_valid_links :: nat
  r_broken_links :: "broken_link list"
  r_invalid_requirement_ids :: "invalid_requirement_id list"
  r_missing_anchors :: "string list"
  r_orphaned_references :: "orphaned_reference list"
  r_documents_with_issues :: "(string \<times> string list) list"
  r_critical_issues :: "string list"
  r_warnings :: "string list"
  r_health_score :: int
  r_summary :: summary

text \<open>The health score of \<^verbatim>\<open>generate_report\<close>, from the three counts it reads.\<close>

definition health_score :: "nat \<Rightarrow> nat \<Rightarrow> nat \<Rightarrow> int" where
  "health_score n_total n_valid n_invalid =
     (let h = (if 0 < n_total then int_of_float (float_mul (true_div n_valid n_total) 100)
               else 100)
      in if n_invalid \<noteq> 0 then max 0 (h - int n_invalid * 2) else h)"

definition generate_report :: "validator \<Rightarrow> report" where
  "generate_report v =
     (let h = health_score (total_links v) (valid_links v) (length (invalid_requirement_ids v));
          docs_sorted = take 10 (sorted_by_issues (documents_with_issues v))
      in \<lparr> r_total_links_checked = total_links v,
           r_valid_links = valid_links v,
           r_broken_links = broken_links v,
           r_invalid_requirement_ids = invalid_requirement_ids v,
           r_missing_anchors = missing_anchors v,
           r_orphaned_references = orphaned_references v,
           r_documents_with_issues = docs_sorted,
           r_critical_issues = critical_issues v,
           r_warnings = warnings v,
           r_health_score = h,
           r_summary =
             \<lparr> s_total_files_checked = length (all_files v),
               s_total_links = total_links v,
               s_valid_links = valid_links v,
               s_broken_links_count = length (broken_links v),
               s_invalid_req_ids_count = length (invalid_requirement_ids v),
               s_orphaned_refs_count = length (orphaned_references v),
               s_critical_issues_count = length (critical_issues v),
               s_warnings_count = length (warnings v),
               s_health_score = h \<rparr> \<rparr>)"

text \<open>The state when the loop of \<^verbatim>\<open>validate_all\<close> is through, and the run as a whole.\<close>

definition validated :: "validator \<Rightarrow> validator" where
  "validated v = fold check_file (all_files v) (cache_all_anchors_and_ids v)"

definition validate_all :: "validator \<Rightarrow> report" where
  "validate_all v = generate_report (validated v)"

section \<open>The loops in closed form\<close>

text \<open>
  What the loops of \<^verbatim>\<open>validate_all\<close> append for one file, written as functions of the
  cached state: the broken links among the links of a file, the invalid requirement
  references among its bracketed identifiers, and the error messages that go to
  \<^verbatim>\<open>documents_with_issues\<close> under the file's name.
\<close>

definition broken_in :: "validator \<Rightarrow> string \<Rightarrow> (string \<times> string) list \<Rightarrow> broken_link list" where
  "broken_in v file ls =
     map (\<lambda>l. \<lparr> bl_file = file, bl_link_text = fst l, bl_link_target = snd l,
                bl_error = snd (validate_link v file (fst l) (snd l)) \<rparr>)
         (filter (\<lambda>l. \<not> fst (validate_link v file (fst l) (snd l))) ls)"

definition invalid_in :: "validator \<Rightarrow> string \<Rightarrow> string list \<Rightarrow> invalid_requirement_id list" where
  "invalid_in v file rs =
     map (\<lambda>r. \<lparr> ir_file = file, ir_requirement_id = r,
                ir_error = snd (validate_requirement_reference v r) \<rparr>)
         (filter (\<lambda>r. \<not> fst (validate_requirement_reference v r)) rs)"

definition broken_of :: "validator \<Rightarrow> path \<Rightarrow> broken_link list" where
  "broken_of v f = broken_in v (fst f) (extract_links_from_file (snd f))"

definition invalid_of :: "validator \<Rightarrow> path \<Rightarrow> invalid_requirement_id list" where
  "invalid_of v f = invalid_in v (fst f) (find_requirement_references (snd f))"

definition file_errors :: "validator \<Rightarrow> path \<Rightarrow> string list" where
  "file_errors v f =
     map bl_error (broken_in v (fst f) (extract_links_from_file (snd f)))
     @ map ir_error (invalid_in v (fst f) (find_requirement_references (snd f)))"


text \<open>The test that escalates a broken link, and the line it adds to \<^verbatim>\<open>critical_issues\<close>.\<close>

definition is_critical :: "broken_link \<Rightarrow> bool" where
  "is_critical b = (contains ''SPEC016'' (bl_link_target b) \<or> contains ''SPEC017'' (bl_link_target b))"

definition critical_line :: "broken_link \<Rightarrow> string" where
  "critical_line b = bl_file b @ '': '' @ bl_error b"

text \<open>
  The requirement index of the directory: the identifier occurs in brackets in the file of
  that name. The message of an invalid requirement reference.
\<close>

definition defined_in :: "path list \<Rightarrow> string \<Rightarrow> string \<Rightarrow> bool" where
  "defined_in files expected_file req_id =
     list_ex (\<lambda>d. fst d = expected_file \<and> req_id \<in> set (find_requirement_references (snd d))) files"

definition not_found_message :: "string \<Rightarrow> string" where
  "not_found_message req_id =
     ''Requirement ID '' @ req_id @ '' not found in expected file(s): ''
     @ join '', '' (expected_files req_id)"


section \<open>The anchor of a header as specified\<close>

text \<open>
  The anchor of a title in the words of the specification: lowercased, the characters that
  are neither word characters nor white space nor hyphens removed, runs of white space
  turned into single hyphens, hyphens trimmed at both ends.
\<close>

definition trim_hyphens :: "string \<Rightarrow> string" where
  "trim_hyphens s =
     dropWhile (\<lambda>c. c = CHR ''-'') (rev (dropWhile (\<lambda>c. c = CHR ''-'') (rev s)))"

definition spec_anchor :: "string \<Rightarrow> string" where
  "spec_anchor title = trim_hyphens (spaces_to_hyphen (remove_special (lower title)))"

section \<open>The health score\<close>

text \<open>
  The percentage of valid links as \<^verbatim>\<open>generate_report\<close> computes it,
  \<^verbatim>\<open>int((self.valid_links / self.total_links) * 100)\<close>, and the health score as the
  specification words it, with the percentage rounded to the nearest integer.
\<close>

definition percent :: "nat \<Rightarrow> nat \<Rightarrow> int" where
  "percent n_valid n_total = int_of_float (float_mul (true_div n_valid n_total) 100)"

definition spec_health_score :: "nat \<Rightarrow> nat \<Rightarrow> nat \<Rightarrow> int" where
  "spec_health_score n_total n_valid n_invalid =
     max 0 ((if 0 < n_total then round (100 * real n_valid / real n_total) else 100)
            - 2 * int n_invalid)"

section \<open>Example documents\<close>

definition example_files :: "path list" where
  "example_files = [(''a.md'', ''see [x](b.md#) and [y](#)''), (''b.md'', ''# Title'')]"

definition critical_files :: "path list" where
  "critical_files =
     [(''a.md'', ''[x](SPEC016-missing.md) [y](nowhere.md) [z](SPEC017-x.md#t) [w](SPEC017-x.md#u)''),
      (''SPEC017-x.md'', ''# T'')]"

definition requirement_files :: "path list" where
  "requirement_files =
     [(''a.md'', ''[REQ-API-1] [ZZZ-A-1] [REQ-X-2] [GOV-A-1]''),
      (''REQ001-requirements.md'', ''[REQ-X-2]'')]"


definition health_files :: "path list" where
  "health_files = [(''a.md'', ''[a](a.md) [b](a.md#) [c](zzz.md)'')]"

section \<open>The caches\<close>

lemma cache_file_fields [simp]:
  "all_files (cache_file f v) = all_files v"
  "file_names (cache_file f v) = file_names v"
  "total_links (cache_file f v) = total_links v"
  "valid_links (cache_file f v) = valid_links v"
  "broken_links (cache_file f v) = broken_links v"
  "invalid_requirement_ids (cache_file f v) = invalid_requirement_ids v"
  "orphaned_references (cache_file f v) = orphaned_references v"
  "documents_with_issues (cache_file f v) = documents_with_issues v"
  "critical_issues (cache_file f v) = critical_issues v"
  "warnings (cache_file f v) = warnings v"
  "anchors (cache_file f v) = (anchors v)(fst f \<mapsto> extract_anchors_from_file (snd f))"
  "requirement_ids (cache_file f v) =
     (requirement_ids v)(fst f \<mapsto> extract_requirement_ids_from_file (snd f))"
  by (simp_all add: cache_file_def)

lemma fold_cache_file_fields [simp]:
  "all_files (fold cache_file fs v) = all_files v"
  "file_names (fold cache_file fs v) = file_names v"
  "total_links (fold cache_file fs v) = total_links v"
  "valid_links (fold cache_file fs v) = valid_links v"
  "broken_links (fold cache_file fs v) = broken_links v"
  "invalid_requirement_ids (fold cache_file fs v) = invalid_requirement_ids v"
  "orphaned_references (fold cache_file fs v) = orphaned_references v"
  "documents_with_issues (fold cache_file fs v) = documents_with_issues v"
  "critical_issues (fold cache_file fs v) = critical_issues v"
  "warnings (fold cache_file fs v) = warnings v"
  by (induction fs arbitrary: v; simp)+

lemma anchors_fold_cache_file:
  "anchors (fold cache_file fs v) n =
     (case map_of (rev fs) n of None \<Rightarrow> anchors v n
      | Some c \<Rightarrow> Some (extract_anchors_from_file c))"
proof (induction fs arbitrary: v)
  case Nil
  then show ?case by simp
next
  case (Cons f fs)
  show ?case
    by (cases f) (auto simp: Cons.IH map_of_append map_add_def split: option.splits)
qed

lemma requirement_ids_fold_cache_file:
  "requirement_ids (fold cache_file fs v) n =
     (case map_of (rev fs) n of None \<Rightarrow> requirement_ids v n
      | Some c \<Rightarrow> Some (extract_requirement_ids_from_file c))"
proof (induction fs arbitrary: v)
  case Nil
  then show ?case by simp
next
  case (Cons f fs)
  show ?case
    by (cases f) (auto simp: Cons.IH map_of_append map_add_def split: option.splits)
qed

lemma map_of_rev_distinct:
  "distinct (map fst fs) \<Longrightarrow> map_of (rev fs) = map_of fs"
  by (rule ext) (metis map_of_eq_None_iff map_of_is_SomeI not_Some_eq set_rev map_of_SomeD)

lemma anchors_cached:
  assumes "distinct (map fst files)"
  shows "anchors (cache_all_anchors_and_ids (init files)) n =
           map_option extract_anchors_from_file (map_of files n)"
  using assms
  by (simp add: cache_all_anchors_and_ids_def anchors_fold_cache_file map_of_rev_distinct init_def
           split: option.splits)

lemma split_target_hash:
  "CHR ''#'' \<notin> set F \<Longrightarrow> split_target (F @ CHR ''#'' # A) = (F, Some A)"
  by (induction F) (auto simp: split_target_def)

lemma validate_link_hash:
  assumes "CHR ''#'' \<notin> set F"
  shows "fst (validate_link v src link_text (F @ CHR ''#'' # A)) \<longleftrightarrow>
           (if F = [] then src else F) \<in> file_names v \<and>
           (A = [] \<or> (\<exists>cached. anchors v (if F = [] then src else F) = Some cached \<and> A \<in> cached))"
  using assms
  by (auto simp: validate_link_def split_target_hash truthy_def Let_def split: option.splits)


lemma file_names_cached [simp]:
  "file_names (cache_all_anchors_and_ids (init files)) = set (map fst files)"
  by (simp add: cache_all_anchors_and_ids_def init_def)

section \<open>Link resolution\<close>

text \<open>
  Claim C2, as amended. For a target \<open>F#A\<close>, where \<open>F\<close> holds no \<^verbatim>\<open>#\<close>, checked against
  the caches of a directory whose file names are distinct: \<^verbatim>\<open>validate_link\<close> reports the
  link valid if and only if the target document (\<open>F\<close>, or the source document when \<open>F\<close> is
  empty) is a file of the directory and the anchor part \<open>A\<close> is empty or is in the anchor set
  computed from that file's text.
\<close>

theorem validate_link_anchor:
  assumes "distinct (map fst files)" and "CHR ''#'' \<notin> set F"
  shows "fst (validate_link (cache_all_anchors_and_ids (init files)) src link_text (F @ ''#'' @ A)) \<longleftrightarrow>
           (\<exists>content. (if F = [] then src else F, content) \<in> set files \<and>
                      (A = [] \<or> A \<in> extract_anchors_from_file content))"
proof -
  define v where "v = cache_all_anchors_and_ids (init files)"
  define t where "t = (if F = [] then src else F)"
  have look: "map_of files t = Some content \<longleftrightarrow> (t, content) \<in> set files" for content
    using assms(1) by (simp add: map_of_eq_Some_iff)
  have names: "t \<in> file_names v \<longleftrightarrow> (\<exists>content. (t, content) \<in> set files)"
    unfolding v_def by force
  have cached: "anchors v t = map_option extract_anchors_from_file (map_of files t)"
    unfolding v_def using assms(1) by (rule anchors_cached)
  have "fst (validate_link v src link_text (F @ CHR ''#'' # A)) \<longleftrightarrow>
          t \<in> file_names v \<and> (A = [] \<or> (\<exists>cached. anchors v t = Some cached \<and> A \<in> cached))"
    unfolding t_def by (rule validate_link_hash [OF assms(2)])
  also have "\<dots> \<longleftrightarrow> (\<exists>content. (t, content) \<in> set files \<and>
                      (A = [] \<or> A \<in> extract_anchors_from_file content))"
  proof (cases "map_of files t")
    case None
    then have "\<not> (\<exists>content. (t, content) \<in> set files)"
      using look by simp
    then show ?thesis using names by blast
  next
    case (Some c)
    then have in_files: "(t, c) \<in> set files" using look by simp
    have uniq: "c' = c" if "(t, c') \<in> set files" for c'
      using look [of c'] Some that by simp
    have anch: "anchors v t = Some (extract_anchors_from_file c)"
      using cached Some by simp
    have known: "t \<in> file_names v"
      using names in_files by blast
    show ?thesis
    proof
      assume "t \<in> file_names v \<and> (A = [] \<or> (\<exists>cached. anchors v t = Some cached \<and> A \<in> cached))"
      then have "A = [] \<or> A \<in> extract_anchors_from_file c"
        unfolding anch by blast
      with in_files show "\<exists>content. (t, content) \<in> set files \<and>
                      (A = [] \<or> A \<in> extract_anchors_from_file content)"
        by blast
    next
      assume "\<exists>content. (t, content) \<in> set files \<and>
                      (A = [] \<or> A \<in> extract_anchors_from_file content)"
      then obtain c' where c': "(t, c') \<in> set files" "A = [] \<or> A \<in> extract_anchors_from_file c'"
        by blast
      from c'(2) uniq [OF c'(1)] have "A = [] \<or> A \<in> extract_anchors_from_file c"
        by blast
      then show "t \<in> file_names v \<and> (A = [] \<or> (\<exists>cached. anchors v t = Some cached \<and> A \<in> cached))"
        using known anch by blast
    qed
  qed
  finally show ?thesis
    unfolding v_def t_def by simp
qed

theorem validate_link_anchor_witness:
  "distinct (map fst example_files) \<and> CHR ''#'' \<notin> set ''b.md''
   \<and> fst (validate_link (cache_all_anchors_and_ids (init example_files)) ''a.md'' ''x'' ''b.md#title'')
   \<and> \<not> fst (validate_link (cache_all_anchors_and_ids (init example_files)) ''a.md'' ''x'' ''b.md#other'')"
proof -
  have d: "distinct (map fst example_files)" by (simp add: example_files_def)
  have h: "CHR ''#'' \<notin> set ''b.md''" by simp
  have a: "''title'' \<in> extract_anchors_from_file ''# Title''" by code_simp
  have b: "''other'' \<notin> extract_anchors_from_file ''# Title''" by code_simp
  have "fst (validate_link (cache_all_anchors_and_ids (init example_files)) ''a.md'' ''x''
              (''b.md'' @ ''#'' @ ''title''))"
    unfolding validate_link_anchor [OF d h]
    by (rule exI [of _ "''# Title''"]) (simp add: example_files_def a)
  moreover have "\<not> fst (validate_link (cache_all_anchors_and_ids (init example_files)) ''a.md'' ''x''
              (''b.md'' @ ''#'' @ ''other''))"
    unfolding validate_link_anchor [OF d h]
    using b by (simp add: example_files_def)
  ultimately show ?thesis
    using d h by simp
qed

text \<open>
  Claim C2 as stated fails for an empty anchor part: the link \<^verbatim>\<open>[x](b.md#)\<close> is valid
  although the empty string is not among the anchors of \<^verbatim>\<open>b.md\<close>.
\<close>

theorem validate_link_anchor_counterexample:
  "fst (validate_link (cache_all_anchors_and_ids (init example_files)) ''a.md'' ''x'' ''b.md#'')
   \<and> \<not> (''b.md'' \<in> file_names (cache_all_anchors_and_ids (init example_files))
          \<and> [] \<in> the (anchors (cache_all_anchors_and_ids (init example_files)) ''b.md''))"
  unfolding example_files_def by code_simp

text \<open>
  Claim C9, as amended. A target \<open>F#\<close> with an empty anchor part, where \<open>F\<close> holds no
  \<^verbatim>\<open>#\<close>, is valid if and only if the target document is known, whatever the anchor
  sets are; the target document is \<open>F\<close>, or the source document when \<open>F\<close> is empty.
\<close>

theorem validate_link_empty_anchor:
  assumes "CHR ''#'' \<notin> set F"
  shows "fst (validate_link v src link_text (F @ ''#'')) \<longleftrightarrow> (if F = [] then src else F) \<in> file_names v"
  using validate_link_hash [OF assms, of v src link_text "[]"] by simp

theorem validate_link_empty_anchor_witness:
  "CHR ''#'' \<notin> set ''b.md''
   \<and> fst (validate_link (cache_all_anchors_and_ids (init example_files)) ''a.md'' ''x'' ''b.md#'')
   \<and> \<not> fst (validate_link (cache_all_anchors_and_ids (init example_files)) ''a.md'' ''x'' ''c.md#'')"
proof -
  have h: "CHR ''#'' \<notin> set ''b.md''" by simp
  have h2: "CHR ''#'' \<notin> set ''c.md''" by simp
  have "fst (validate_link (cache_all_anchors_and_ids (init example_files)) ''a.md'' ''x''
              (''b.md'' @ ''#''))"
    unfolding validate_link_empty_anchor [OF h] by (simp add: example_files_def)
  moreover have "\<not> fst (validate_link (cache_all_anchors_and_ids (init example_files)) ''a.md'' ''x''
              (''c.md'' @ ''#''))"
    unfolding validate_link_empty_anchor [OF h2] by (simp add: example_files_def)
  ultimately show ?thesis
    using h by simp
qed

text \<open>
  Claim C9 as stated fails for the target \<^verbatim>\<open>#\<close>: the link is valid, and its file part,
  the empty string, names no known document.
\<close>

theorem validate_link_empty_anchor_counterexample:
  "fst (validate_link (cache_all_anchors_and_ids (init example_files)) ''a.md'' ''y'' ''#'')
   \<and> fst (split_target ''#'') = []
   \<and> [] \<notin> file_names (cache_all_anchors_and_ids (init example_files))"
  unfolding example_files_def by code_simp

section \<open>The run\<close>

subsection \<open>One link, one requirement reference, one orphan\<close>

lemma validate_link_caches:
  "file_names v' = file_names v \<Longrightarrow> anchors v' = anchors v \<Longrightarrow> validate_link v' = validate_link v"
  by (intro ext) (simp add: validate_link_def Let_def)

lemma found_in_caches:
  "requirement_ids v' = requirement_ids v \<Longrightarrow> found_in v' = found_in v"
  by (intro ext) (simp add: found_in_def)

lemma validate_requirement_reference_caches:
  "requirement_ids v' = requirement_ids v \<Longrightarrow>
   validate_requirement_reference v' = validate_requirement_reference v"
  using found_in_caches [of v' v]
  by (intro ext) (simp add: validate_requirement_reference_def)

lemma check_link_frame [simp]:
  "all_files (check_link file l v) = all_files v"
  "file_names (check_link file l v) = file_names v"
  "anchors (check_link file l v) = anchors v"
  "requirement_ids (check_link file l v) = requirement_ids v"
  "invalid_requirement_ids (check_link file l v) = invalid_requirement_ids v"
  "orphaned_references (check_link file l v) = orphaned_references v"
  "warnings (check_link file l v) = warnings v"
  by (simp_all add: check_link_def Let_def)

lemma check_link_total [simp]:
  "total_links (check_link file l v) = total_links v + 1"
  by (simp add: check_link_def Let_def)

lemma validate_link_total_update [simp]:
  "validate_link (v\<lparr>total_links := n\<rparr>) = validate_link v"
  by (rule validate_link_caches) simp_all

lemma check_link_valid:
  "valid_links (check_link file l v) =
     valid_links v + (if fst (validate_link v file (fst l) (snd l)) then 1 else 0)"
  by (simp add: check_link_def Let_def)

lemma check_link_broken:
  "broken_links (check_link file l v) = broken_links v @ broken_in v file [l]"
  by (simp add: check_link_def Let_def broken_in_def)

lemma check_link_critical:
  "critical_issues (check_link file l v) =
     critical_issues v @ map critical_line (filter is_critical (broken_in v file [l]))"
  by (simp add: check_link_def Let_def broken_in_def is_critical_def critical_line_def)


lemma validate_link_check_link [simp]:
  "validate_link (check_link file l v) = validate_link v"
  by (rule validate_link_caches) simp_all

lemma broken_in_Cons:
  "broken_in v file (l # ls) = broken_in v file [l] @ broken_in v file ls"
  by (simp add: broken_in_def)

lemma broken_in_validate_cong:
  "validate_link v' = validate_link v \<Longrightarrow> broken_in v' = broken_in v"
  by (intro ext) (simp add: broken_in_def)

lemma fold_check_link_frame [simp]:
  "all_files (fold (check_link file) ls v) = all_files v"
  "file_names (fold (check_link file) ls v) = file_names v"
  "anchors (fold (check_link file) ls v) = anchors v"
  "requirement_ids (fold (check_link file) ls v) = requirement_ids v"
  "invalid_requirement_ids (fold (check_link file) ls v) = invalid_requirement_ids v"
  "orphaned_references (fold (check_link file) ls v) = orphaned_references v"
  "warnings (fold (check_link file) ls v) = warnings v"
  by (induction ls arbitrary: v; simp)+

lemma fold_check_link_total:
  "total_links (fold (check_link file) ls v) = total_links v + length ls"
  by (induction ls arbitrary: v) simp_all

lemma fold_check_link_broken:
  "broken_links (fold (check_link file) ls v) = broken_links v @ broken_in v file ls"
proof (induction ls arbitrary: v)
  case Nil
  then show ?case by (simp add: broken_in_def)
next
  case (Cons l ls)
  have "broken_in (check_link file l v) = broken_in v"
    by (rule broken_in_validate_cong) simp
  then show ?case
    by (simp add: Cons.IH check_link_broken broken_in_Cons [of v "file" l ls])
qed

lemma fold_check_link_valid:
  "valid_links (fold (check_link file) ls v) + length (broken_in v file ls) =
     valid_links v + length ls"
proof (induction ls arbitrary: v)
  case Nil
  then show ?case by (simp add: broken_in_def)
next
  case (Cons l ls)
  have eq: "broken_in (check_link file l v) = broken_in v"
    by (rule broken_in_validate_cong) simp
  have "valid_links (fold (check_link file) ls (check_link file l v))
          + length (broken_in v file ls) = valid_links (check_link file l v) + length ls"
    using Cons.IH [of "check_link file l v"] by (simp add: eq)
  then show ?case
    by (simp add: check_link_valid broken_in_Cons [of v "file" l ls]) (simp add: broken_in_def)
qed

lemma fold_check_link_critical:
  "critical_issues (fold (check_link file) ls v) =
     critical_issues v @ map critical_line (filter is_critical (broken_in v file ls))"
proof (induction ls arbitrary: v)
  case Nil
  then show ?case by (simp add: broken_in_def)
next
  case (Cons l ls)
  have "broken_in (check_link file l v) = broken_in v"
    by (rule broken_in_validate_cong) simp
  then show ?case
    by (simp add: Cons.IH check_link_critical broken_in_Cons [of v "file" l ls])
qed


lemma check_requirement_frame [simp]:
  "all_files (check_requirement fname r v) = all_files v"
  "file_names (check_requirement fname r v) = file_names v"
  "anchors (check_requirement fname r v) = anchors v"
  "requirement_ids (check_requirement fname r v) = requirement_ids v"
  "total_links (check_requirement fname r v) = total_links v"
  "valid_links (check_requirement fname r v) = valid_links v"
  "broken_links (check_requirement fname r v) = broken_links v"
  "critical_issues (check_requirement fname r v) = critical_issues v"
  "orphaned_references (check_requirement fname r v) = orphaned_references v"
  "warnings (check_requirement fname r v) = warnings v"
  by (simp_all add: check_requirement_def Let_def)

lemma check_requirement_invalid:
  "invalid_requirement_ids (check_requirement fname r v) =
     invalid_requirement_ids v @ invalid_in v fname [r]"
  by (simp add: check_requirement_def Let_def invalid_in_def)


lemma validate_requirement_reference_check_requirement [simp]:
  "validate_requirement_reference (check_requirement fname r v) = validate_requirement_reference v"
  by (rule validate_requirement_reference_caches) simp

lemma invalid_in_Cons:
  "invalid_in v fname (r # rs) = invalid_in v fname [r] @ invalid_in v fname rs"
  by (simp add: invalid_in_def)

lemma invalid_in_validate_cong:
  "validate_requirement_reference v' = validate_requirement_reference v \<Longrightarrow>
   invalid_in v' = invalid_in v"
  by (intro ext) (simp add: invalid_in_def)

lemma fold_check_requirement_frame [simp]:
  "all_files (fold (check_requirement fname) rs v) = all_files v"
  "file_names (fold (check_requirement fname) rs v) = file_names v"
  "anchors (fold (check_requirement fname) rs v) = anchors v"
  "requirement_ids (fold (check_requirement fname) rs v) = requirement_ids v"
  "total_links (fold (check_requirement fname) rs v) = total_links v"
  "valid_links (fold (check_requirement fname) rs v) = valid_links v"
  "broken_links (fold (check_requirement fname) rs v) = broken_links v"
  "critical_issues (fold (check_requirement fname) rs v) = critical_issues v"
  "orphaned_references (fold (check_requirement fname) rs v) = orphaned_references v"
  "warnings (fold (check_requirement fname) rs v) = warnings v"
  by (induction rs arbitrary: v; simp)+

lemma fold_check_requirement_invalid:
  "invalid_requirement_ids (fold (check_requirement fname) rs v) =
     invalid_requirement_ids v @ invalid_in v fname rs"
proof (induction rs arbitrary: v)
  case Nil
  then show ?case by (simp add: invalid_in_def)
next
  case (Cons r rs)
  have "invalid_in (check_requirement fname r v) = invalid_in v"
    by (rule invalid_in_validate_cong) simp
  then show ?case
    by (simp add: Cons.IH check_requirement_invalid invalid_in_Cons [of v fname r rs])
qed


lemma record_orphan_frame [simp]:
  "all_files (record_orphan fname r v) = all_files v"
  "file_names (record_orphan fname r v) = file_names v"
  "anchors (record_orphan fname r v) = anchors v"
  "requirement_ids (record_orphan fname r v) = requirement_ids v"
  "total_links (record_orphan fname r v) = total_links v"
  "valid_links (record_orphan fname r v) = valid_links v"
  "broken_links (record_orphan fname r v) = broken_links v"
  "invalid_requirement_ids (record_orphan fname r v) = invalid_requirement_ids v"
  "critical_issues (record_orphan fname r v) = critical_issues v"
  "documents_with_issues (record_orphan fname r v) = documents_with_issues v"
  by (simp_all add: record_orphan_def)

lemma fold_record_orphan_frame [simp]:
  "all_files (fold (record_orphan fname) rs v) = all_files v"
  "file_names (fold (record_orphan fname) rs v) = file_names v"
  "anchors (fold (record_orphan fname) rs v) = anchors v"
  "requirement_ids (fold (record_orphan fname) rs v) = requirement_ids v"
  "total_links (fold (record_orphan fname) rs v) = total_links v"
  "valid_links (fold (record_orphan fname) rs v) = valid_links v"
  "broken_links (fold (record_orphan fname) rs v) = broken_links v"
  "invalid_requirement_ids (fold (record_orphan fname) rs v) = invalid_requirement_ids v"
  "critical_issues (fold (record_orphan fname) rs v) = critical_issues v"
  "documents_with_issues (fold (record_orphan fname) rs v) = documents_with_issues v"
  by (induction rs arbitrary: v; simp)+

lemma fold_record_orphan_references:
  "orphaned_references (fold (record_orphan fname) rs v) =
     orphaned_references v @ map (\<lambda>r. \<lparr> or_file = fname, or_reference = r \<rparr>) rs"
  by (induction rs arbitrary: v) (simp_all add: record_orphan_def)

lemma fold_record_orphan_warnings:
  "warnings (fold (record_orphan fname) rs v) =
     warnings v @ map (\<lambda>r. fname @ '': Orphaned reference '' @ r @ '' (not in markdown link)'') rs"
  by (induction rs arbitrary: v) (simp_all add: record_orphan_def)

subsection \<open>One file\<close>

lemma check_file_frame [simp]:
  "all_files (check_file f v) = all_files v"
  "file_names (check_file f v) = file_names v"
  "anchors (check_file f v) = anchors v"
  "requirement_ids (check_file f v) = requirement_ids v"
  by (simp_all add: check_file_def Let_def)

lemma validate_link_check_file [simp]:
  "validate_link (check_file f v) = validate_link v"
  by (rule validate_link_caches) simp_all

lemma validate_requirement_reference_check_file [simp]:
  "validate_requirement_reference (check_file f v) = validate_requirement_reference v"
  by (rule validate_requirement_reference_caches) simp

lemma check_file_total:
  "total_links (check_file f v) = total_links v + length (extract_links_from_file (snd f))"
  by (simp add: check_file_def Let_def fold_check_link_total)

lemma check_file_broken:
  "broken_links (check_file f v) =
     broken_links v @ broken_in v (fst f) (extract_links_from_file (snd f))"
  by (simp add: check_file_def Let_def fold_check_link_broken)

lemma check_file_valid:
  "valid_links (check_file f v)
     + length (broken_in v (fst f) (extract_links_from_file (snd f))) =
   valid_links v + length (extract_links_from_file (snd f))"
  by (simp add: check_file_def Let_def fold_check_link_valid)

lemma check_file_critical:
  "critical_issues (check_file f v) =
     critical_issues v @ map critical_line
       (filter is_critical (broken_in v (fst f) (extract_links_from_file (snd f))))"
  by (simp add: check_file_def Let_def fold_check_link_critical)

lemma check_file_invalid:
  "invalid_requirement_ids (check_file f v) =
     invalid_requirement_ids v @ invalid_in v (fst f) (find_requirement_references (snd f))"
proof -
  have "invalid_in (fold (check_link (fst f)) (extract_links_from_file (snd f)) v) = invalid_in v"
    by (rule invalid_in_validate_cong) (rule validate_requirement_reference_caches, simp)
  then show ?thesis
    by (simp add: check_file_def Let_def fold_check_requirement_invalid)
qed


lemma check_file_orphans:
  "orphaned_references (check_file f v) =
     orphaned_references v @
     map (\<lambda>r. \<lparr> or_file = fst f, or_reference = r \<rparr>) (find_orphaned_references (snd f))"
  by (simp add: check_file_def Let_def fold_record_orphan_references)

lemma check_file_warnings:
  "warnings (check_file f v) =
     warnings v @
     map (\<lambda>r. fst f @ '': Orphaned reference '' @ r @ '' (not in markdown link)'')
       (find_orphaned_references (snd f))"
  by (simp add: check_file_def Let_def fold_record_orphan_warnings)

subsection \<open>All files\<close>

lemma fold_check_file_frame [simp]:
  "all_files (fold check_file fs v) = all_files v"
  "file_names (fold check_file fs v) = file_names v"
  "anchors (fold check_file fs v) = anchors v"
  "requirement_ids (fold check_file fs v) = requirement_ids v"
  by (induction fs arbitrary: v; simp)+

lemma broken_of_check_file [simp]: "broken_of (check_file f v) = broken_of v"
  by (intro ext) (simp add: broken_of_def broken_in_validate_cong [of "check_file f v" v])

lemma invalid_of_check_file [simp]: "invalid_of (check_file f v) = invalid_of v"
  by (intro ext) (simp add: invalid_of_def invalid_in_validate_cong [of "check_file f v" v])

lemma file_errors_check_file [simp]: "file_errors (check_file f v) = file_errors v"
  by (intro ext)
     (simp add: file_errors_def broken_in_validate_cong [of "check_file f v" v]
        invalid_in_validate_cong [of "check_file f v" v])

lemma fold_check_file_total:
  "total_links (fold check_file fs v) =
     total_links v + sum_list (map (\<lambda>f. length (extract_links_from_file (snd f))) fs)"
  by (induction fs arbitrary: v) (simp_all add: check_file_total)

lemma fold_check_file_broken:
  "broken_links (fold check_file fs v) = broken_links v @ concat (map (broken_of v) fs)"
  by (induction fs arbitrary: v) (simp_all add: check_file_broken broken_of_def [symmetric])

lemma fold_check_file_invalid:
  "invalid_requirement_ids (fold check_file fs v) =
     invalid_requirement_ids v @ concat (map (invalid_of v) fs)"
  by (induction fs arbitrary: v) (simp_all add: check_file_invalid invalid_of_def [symmetric])

lemma fold_check_file_critical:
  "critical_issues (fold check_file fs v) =
     critical_issues v @ map critical_line (filter is_critical (concat (map (broken_of v) fs)))"
  by (induction fs arbitrary: v) (simp_all add: check_file_critical broken_of_def [symmetric])

lemma fold_check_file_valid:
  "valid_links (fold check_file fs v) + length (concat (map (broken_of v) fs)) =
     valid_links v + sum_list (map (\<lambda>f. length (extract_links_from_file (snd f))) fs)"
proof (induction fs arbitrary: v)
  case Nil
  then show ?case by simp
next
  case (Cons f fs)
  have "valid_links (fold check_file fs (check_file f v)) + length (concat (map (broken_of v) fs)) =
     valid_links (check_file f v) + sum_list (map (\<lambda>f. length (extract_links_from_file (snd f))) fs)"
    using Cons.IH [of "check_file f v"] by simp
  moreover have "valid_links (check_file f v) + length (broken_of v f) =
      valid_links v + length (extract_links_from_file (snd f))"
    using check_file_valid [of f v] by (simp add: broken_of_def)
  ultimately show ?case
    by simp
qed

lemma fold_check_file_orphans:
  "orphaned_references (fold check_file fs v) =
     orphaned_references v @
     concat (map (\<lambda>f. map (\<lambda>r. \<lparr> or_file = fst f, or_reference = r \<rparr>)
                        (find_orphaned_references (snd f))) fs)"
  by (induction fs arbitrary: v) (simp_all add: check_file_orphans)

lemma fold_check_file_warnings:
  "warnings (fold check_file fs v) =
     warnings v @
     concat (map (\<lambda>f. map (\<lambda>r. fst f @ '': Orphaned reference '' @ r @ '' (not in markdown link)'')
                        (find_orphaned_references (snd f))) fs)"
  by (induction fs arbitrary: v) (simp_all add: check_file_warnings)


subsection \<open>The dictionary of issues\<close>






lemma validated_init:
  "validated (init files) = fold check_file files (cache_all_anchors_and_ids (init files))"
  by (simp add: validated_def cache_all_anchors_and_ids_def init_def)

lemma cached_init_lists [simp]:
  "total_links (cache_all_anchors_and_ids (init files)) = 0"
  "valid_links (cache_all_anchors_and_ids (init files)) = 0"
  "broken_links (cache_all_anchors_and_ids (init files)) = []"
  "invalid_requirement_ids (cache_all_anchors_and_ids (init files)) = []"
  "critical_issues (cache_all_anchors_and_ids (init files)) = []"
  "documents_with_issues (cache_all_anchors_and_ids (init files)) = []"
  "orphaned_references (cache_all_anchors_and_ids (init files)) = []"
  "warnings (cache_all_anchors_and_ids (init files)) = []"
  by (simp_all add: cache_all_anchors_and_ids_def init_def)

lemma report_fields [simp]:
  "r_total_links_checked (generate_report v) = total_links v"
  "r_valid_links (generate_report v) = valid_links v"
  "r_broken_links (generate_report v) = broken_links v"
  "r_invalid_requirement_ids (generate_report v) = invalid_requirement_ids v"
  "r_orphaned_references (generate_report v) = orphaned_references v"
  "r_critical_issues (generate_report v) = critical_issues v"
  "r_warnings (generate_report v) = warnings v"
  "r_documents_with_issues (generate_report v) =
     take 10 (sorted_by_issues (documents_with_issues v))"
  "r_health_score (generate_report v) =
     health_score (total_links v) (valid_links v) (length (invalid_requirement_ids v))"
  by (simp_all add: generate_report_def Let_def)

lemma run_broken_links:
  "r_broken_links (validate_all (init files)) =
     concat (map (broken_of (cache_all_anchors_and_ids (init files))) files)"
  by (simp add: validate_all_def validated_init fold_check_file_broken)

lemma run_critical_issues:
  "r_critical_issues (validate_all (init files)) =
     map critical_line (filter is_critical
       (concat (map (broken_of (cache_all_anchors_and_ids (init files))) files)))"
  by (simp add: validate_all_def validated_init fold_check_file_critical)

lemma run_invalid_requirement_ids:
  "r_invalid_requirement_ids (validate_all (init files)) =
     concat (map (invalid_of (cache_all_anchors_and_ids (init files))) files)"
  by (simp add: validate_all_def validated_init fold_check_file_invalid)


lemma run_links:
  "r_valid_links (validate_all (init files)) + length (r_broken_links (validate_all (init files)))
     = r_total_links_checked (validate_all (init files))"
  using fold_check_file_valid [of files "cache_all_anchors_and_ids (init files)"]
  by (simp add: validate_all_def validated_init fold_check_file_total fold_check_file_broken)

section \<open>Critical issues\<close>

text \<open>
  Claim C6. The critical issues of a run are exactly the lines of the broken links whose
  target string contains \<^verbatim>\<open>SPEC016\<close> or \<^verbatim>\<open>SPEC017\<close>, in the order of the broken links; and
  the broken links are exactly the extracted links that \<^verbatim>\<open>validate_link\<close> rejects, so a
  valid link adds nothing to either list.
\<close>

theorem critical_issues_iff:
  "r_critical_issues (validate_all (init files)) =
     map critical_line (filter is_critical (r_broken_links (validate_all (init files))))
   \<and> r_broken_links (validate_all (init files)) =
     concat (map (broken_of (cache_all_anchors_and_ids (init files))) files)"
  by (simp add: run_broken_links run_critical_issues)

theorem critical_issues_iff_witness:
  "r_critical_issues (validate_all (init critical_files)) =
     [''a.md: Target file not found: SPEC016-missing.md'',
      ''a.md: Anchor #u not found in SPEC017-x.md'']
   \<and> map bl_link_target (r_broken_links (validate_all (init critical_files))) =
     [''SPEC016-missing.md'', ''nowhere.md'', ''SPEC017-x.md#u'']"
proof -
  have "map critical_line (filter is_critical (r_broken_links (validate_all (init critical_files)))) =
     [''a.md: Target file not found: SPEC016-missing.md'',
      ''a.md: Anchor #u not found in SPEC017-x.md'']"
    by code_simp
  moreover have "map bl_link_target
      (concat (map (broken_of (cache_all_anchors_and_ids (init critical_files))) critical_files)) =
     [''SPEC016-missing.md'', ''nowhere.md'', ''SPEC017-x.md#u'']"
    by code_simp
  ultimately show ?thesis
    using critical_issues_iff [of critical_files] by simp
qed

section \<open>Documents with issues\<close>




section \<open>Requirement references\<close>

lemma expected_files_alt: "expected_files req_id =
     (case map_of file_map (prefix_of req_id) of
        None \<Rightarrow> []
      | Some (One f) \<Rightarrow> [f]
      | Some (Many fs) \<Rightarrow> fs)"
  by (simp add: expected_files_def)

lemma file_map_Many_nonempty:
  "map_of file_map p = Some (Many fs) \<Longrightarrow> fs \<noteq> []"
proof -
  assume "map_of file_map p = Some (Many fs)"
  then have "(p, Many fs) \<in> set file_map"
    by (rule map_of_SomeD)
  then show "fs \<noteq> []"
    by (auto simp: file_map_def)
qed

lemma expected_files_Nil_iff:
  "expected_files req_id = [] \<longleftrightarrow> map_of file_map (prefix_of req_id) = None"
  by (auto simp: expected_files_alt dest: file_map_Many_nonempty split: option.splits expected.splits)

lemma requirement_ids_cached:
  assumes "distinct (map fst files)"
  shows "requirement_ids (cache_all_anchors_and_ids (init files)) n =
           map_option extract_requirement_ids_from_file (map_of files n)"
  using assms
  by (simp add: cache_all_anchors_and_ids_def requirement_ids_fold_cache_file map_of_rev_distinct
        init_def split: option.splits)

lemma found_in_cached:
  assumes "distinct (map fst files)"
  shows "found_in (cache_all_anchors_and_ids (init files)) req_id e \<longleftrightarrow> defined_in files e req_id"
proof (cases "map_of files e")
  case None
  then have "\<And>c. (e, c) \<notin> set files"
    by (metis map_of_eq_None_iff image_eqI fst_conv)
  then have "\<not> defined_in files e req_id"
    by (auto simp: defined_in_def list_ex_iff)
  then show ?thesis
    using None by (simp add: found_in_def requirement_ids_cached [OF assms])
next
  case (Some c)
  have iff: "(e, c') \<in> set files \<longleftrightarrow> c' = c" for c'
    using assms Some by (metis map_of_eq_Some_iff option.inject)
  have "defined_in files e req_id \<longleftrightarrow>
          (\<exists>c'. (e, c') \<in> set files \<and> req_id \<in> set (find_requirement_references c'))"
    unfolding defined_in_def list_ex_iff by force
  also have "\<dots> \<longleftrightarrow> req_id \<in> set (find_requirement_references c)"
    unfolding iff by blast
  finally have "defined_in files e req_id \<longleftrightarrow> req_id \<in> set (find_requirement_references c)" .
  then show ?thesis
    using Some
    by (simp add: found_in_def requirement_ids_cached [OF assms]
          extract_requirement_ids_from_file_def find_requirement_references_def)
qed

lemma validate_requirement_reference_cached:
  assumes "distinct (map fst files)"
  shows "validate_requirement_reference (cache_all_anchors_and_ids (init files)) req_id =
     (if map_of file_map (prefix_of req_id) \<noteq> None
         \<and> \<not> list_ex (\<lambda>e. defined_in files e req_id) (expected_files req_id)
      then (False, not_found_message req_id) else (True, []))"
proof -
  have "found_in (cache_all_anchors_and_ids (init files)) req_id = (\<lambda>e. defined_in files e req_id)"
    by (intro ext) (rule found_in_cached [OF assms])
  then show ?thesis
    by (simp add: validate_requirement_reference_def not_found_message_def expected_files_Nil_iff)
qed

lemma starts_with_append [simp]: "starts_with s (s @ t)"
  by (induction s) simp_all

lemma contains_prefix: "contains sub (sub @ b)"
proof (cases "sub @ b")
  case Nil
  then show ?thesis by simp
next
  case (Cons c cs)
  have "starts_with sub (sub @ b)" by simp
  then show ?thesis unfolding Cons by simp
qed

lemma contains_append: "contains sub (a @ sub @ b)"
  by (induction a) (simp_all add: contains_prefix)

lemma join_names:
  "e \<in> set ps \<Longrightarrow> \<exists>a b. join sep ps = a @ e @ b"
proof (induction sep ps rule: join.induct)
  case (1 sep)
  then show ?case by simp
next
  case (2 sep p)
  then have "e = p" by simp
  then have "join sep [p] = [] @ e @ []" by simp
  then show ?case by blast
next
  case (3 sep p q ps)
  show ?case
  proof (cases "e = p")
    case True
    then have "join sep (p # q # ps) = [] @ e @ (sep @ join sep (q # ps))" by simp
    then show ?thesis by blast
  next
    case False
    then have "e \<in> set (q # ps)" using "3.prems" by simp
    then obtain a b where "join sep (q # ps) = a @ e @ b" using "3.IH" by blast
    then have "join sep (p # q # ps) = (p @ sep @ a) @ e @ b" by simp
    then show ?thesis by blast
  qed
qed

lemma message_names_candidates:
  assumes "e \<in> set (expected_files req_id)"
  shows "contains e (not_found_message req_id)"
proof -
  obtain a b where "join '', '' (expected_files req_id) = a @ e @ b"
    using join_names [OF assms] by blast
  then have "not_found_message req_id =
      (''Requirement ID '' @ req_id @ '' not found in expected file(s): '' @ a) @ e @ b"
    by (simp add: not_found_message_def)
  then show ?thesis
    by (simp only: contains_append)
qed

text \<open>
  Claim C5. For a directory with distinct file names, the invalid-requirement issues of a
  run are, file by file and in the order of the text, the bracketed identifiers whose prefix
  is a key of \<^verbatim>\<open>file_map\<close> and which occur in brackets in none of the candidate documents of
  that prefix; an identifier with an unmapped prefix yields no issue. The message of the
  issue holds the name of every candidate document.
\<close>

theorem invalid_requirement_ids_iff:
  assumes "distinct (map fst files)"
  shows "r_invalid_requirement_ids (validate_all (init files)) =
     concat (map (\<lambda>f. map (\<lambda>r. \<lparr> ir_file = fst f, ir_requirement_id = r,
                                  ir_error = not_found_message r \<rparr>)
                    (filter (\<lambda>r. map_of file_map (prefix_of r) \<noteq> None
                                 \<and> \<not> list_ex (\<lambda>e. defined_in files e r) (expected_files r))
                       (find_requirement_references (snd f)))) files)
     \<and> (\<forall>r. \<forall>e \<in> set (expected_files r). contains e (not_found_message r))"
proof -
  let ?v = "cache_all_anchors_and_ids (init files)"
  have "invalid_of ?v f =
      map (\<lambda>r. \<lparr> ir_file = fst f, ir_requirement_id = r, ir_error = not_found_message r \<rparr>)
          (filter (\<lambda>r. map_of file_map (prefix_of r) \<noteq> None
                       \<and> \<not> list_ex (\<lambda>e. defined_in files e r) (expected_files r))
             (find_requirement_references (snd f)))" for f
    unfolding invalid_of_def invalid_in_def validate_requirement_reference_cached [OF assms]
    by (intro map_cong filter_cong) auto
  then have "map (invalid_of ?v) files =
      map (\<lambda>f. map (\<lambda>r. \<lparr> ir_file = fst f, ir_requirement_id = r,
                                  ir_error = not_found_message r \<rparr>)
                    (filter (\<lambda>r. map_of file_map (prefix_of r) \<noteq> None
                                 \<and> \<not> list_ex (\<lambda>e. defined_in files e r) (expected_files r))
                       (find_requirement_references (snd f)))) files"
    by (intro map_cong) simp_all
  then have "r_invalid_requirement_ids (validate_all (init files)) =
     concat (map (\<lambda>f. map (\<lambda>r. \<lparr> ir_file = fst f, ir_requirement_id = r,
                                  ir_error = not_found_message r \<rparr>)
                    (filter (\<lambda>r. map_of file_map (prefix_of r) \<noteq> None
                                 \<and> \<not> list_ex (\<lambda>e. defined_in files e r) (expected_files r))
                       (find_requirement_references (snd f)))) files)"
    unfolding run_invalid_requirement_ids by (rule arg_cong)
  moreover have "\<forall>r. \<forall>e \<in> set (expected_files r). contains e (not_found_message r)"
    using message_names_candidates by blast
  ultimately show ?thesis
    by (rule conjI)
qed

theorem invalid_requirement_ids_iff_witness:
  "distinct (map fst requirement_files) \<and>
   r_invalid_requirement_ids (validate_all (init requirement_files)) =
     [\<lparr> ir_file = ''a.md'', ir_requirement_id = ''REQ-API-1'',
        ir_error = ''Requirement ID REQ-API-1 not found in expected file(s): REQ001-requirements.md'' \<rparr>,
      \<lparr> ir_file = ''a.md'', ir_requirement_id = ''GOV-A-1'',
        ir_error = ''Requirement ID GOV-A-1 not found in expected file(s): GOV001-document_hierarchy.md, GOV002-requirements_enumeration.md, GOV003-filename_convention.md'' \<rparr>]"
proof -
  have d: "distinct (map fst requirement_files)"
    by (simp add: requirement_files_def)
  have "concat (map (\<lambda>f. map (\<lambda>r. \<lparr> ir_file = fst f, ir_requirement_id = r,
                                  ir_error = not_found_message r \<rparr>)
                    (filter (\<lambda>r. map_of file_map (prefix_of r) \<noteq> None
                                 \<and> \<not> list_ex (\<lambda>e. defined_in requirement_files e r) (expected_files r))
                       (find_requirement_references (snd f)))) requirement_files) =
     [\<lparr> ir_file = ''a.md'', ir_requirement_id = ''REQ-API-1'',
        ir_error = ''Requirement ID REQ-API-1 not found in expected file(s): REQ001-requirements.md'' \<rparr>,
      \<lparr> ir_file = ''a.md'', ir_requirement_id = ''GOV-A-1'',
        ir_error = ''Requirement ID GOV-A-1 not found in expected file(s): GOV001-document_hierarchy.md, GOV002-requirements_enumeration.md, GOV003-filename_convention.md'' \<rparr>]"
    by code_simp
  then show ?thesis
    using d invalid_requirement_ids_iff [OF d, THEN conjunct1] by simp
qed

section \<open>Rounding to binary64\<close>

lemma ilog2_bounds:
  assumes "0 < x"
  shows "2 powi (ilog2 x) \<le> x \<and> x < 2 powi (ilog2 x + 1)"
proof (cases "1 \<le> x")
  case True
  define n where "n = nat \<lfloor>x\<rfloor>"
  have fl: "1 \<le> \<lfloor>x\<rfloor>" using True by linarith
  then have rn: "real n = of_int \<lfloor>x\<rfloor>" by (simp add: n_def)
  have n: "0 < n" "real n \<le> x" "x < real n + 1"
    using fl unfolding rn by (simp add: n_def, linarith+)
  define k where "k = floorlog 2 n"
  have k: "2 ^ (k - 1) \<le> n" "n < 2 ^ k"
    using floorlog_bounds [of n 2] n(1) by (auto simp: k_def)
  have kpos: "0 < k"
    using n(1) floorlog_eq_zero_iff [of 2 n] by (cases "k = 0") (simp_all add: k_def)
  have e: "ilog2 x = int k - 1"
    using True by (simp add: ilog2_def n_def k_def)
  have p1: "2 powi (int k - 1) = (2::real) ^ (k - 1)"
    using kpos by (simp add: power_int_def nat_diff_distrib')
  have lo: "(2::real) ^ (k - 1) \<le> real n"
  proof -
    have "real ((2::nat) ^ (k - 1)) \<le> real n"
      using k(1) by (simp only: of_nat_le_iff)
    then show ?thesis by simp
  qed
  have hi: "real n + 1 \<le> 2 ^ k"
  proof -
    have "Suc n \<le> 2 ^ k" using k(2) by simp
    then have "real (Suc n) \<le> real ((2::nat) ^ k)"
      by (simp only: of_nat_le_iff)
    then show ?thesis by simp
  qed
  have p2: "2 powi (int k - 1 + 1) = (2::real) ^ k"
    by (simp add: power_int_def)
  have "(2::real) ^ (k - 1) \<le> x"
    using lo n(2) by linarith
  moreover have "x < (2::real) ^ k"
    using hi n(3) by linarith
  ultimately show ?thesis
    unfolding e p1 p2 by (rule conjI)
next
  case False
  define y where "y = 1 / x"
  have y: "1 < y" using assms False by (simp add: y_def)
  define n where "n = nat (\<lceil>y\<rceil> - 1)"
  have cl: "2 \<le> \<lceil>y\<rceil>" using y by linarith
  then have rn: "real n = of_int \<lceil>y\<rceil> - 1" by (simp add: n_def)
  have n: "0 < n" "real n < y" "y \<le> real n + 1"
    using cl unfolding rn by (simp add: n_def, linarith+)
  define k where "k = floorlog 2 n"
  have k: "2 ^ (k - 1) \<le> n" "n < 2 ^ k"
    using floorlog_bounds [of n 2] n(1) by (auto simp: k_def)
  have kpos: "0 < k"
    using n(1) floorlog_eq_zero_iff [of 2 n] by (cases "k = 0") (simp_all add: k_def)
  have e: "ilog2 x = - int k"
    using False by (simp add: ilog2_def n_def k_def y_def)
  have lo: "(2::real) ^ (k - 1) < y"
  proof -
    have "real ((2::nat) ^ (k - 1)) \<le> real n"
      using k(1) by (simp only: of_nat_le_iff)
    then have "(2::real) ^ (k - 1) \<le> real n" by simp
    then show ?thesis using n(2) by linarith
  qed
  have hi: "y \<le> 2 ^ k"
  proof -
    have "Suc n \<le> 2 ^ k" using k(2) by simp
    then have "real (Suc n) \<le> real ((2::nat) ^ k)"
      by (simp only: of_nat_le_iff)
    then have "real n + 1 \<le> 2 ^ k" by simp
    then show ?thesis using n(3) by linarith
  qed
  have x: "x = 1 / y" using assms by (simp add: y_def)
  have p1: "2 powi (- int k) = 1 / (2::real) ^ k"
    by (simp add: power_int_def field_simps)
  have p2: "2 powi (- int k + 1) = 1 / (2::real) ^ (k - 1)"
    using kpos by (simp add: power_int_def nat_diff_distrib' field_simps)
  have "1 / (2::real) ^ k \<le> x"
    unfolding x using hi y by (simp add: frac_le)
  moreover have "x < 1 / (2::real) ^ (k - 1)"
    unfolding x using lo by (simp add: frac_less2)
  ultimately show ?thesis
    unfolding e p1 p2 by (rule conjI)
qed

lemma ilog2_mono:
  assumes "0 < x" "x \<le> y"
  shows "ilog2 x \<le> ilog2 y"
proof -
  have "2 powi (ilog2 x) \<le> x" using ilog2_bounds [OF assms(1)] by simp
  also have "x \<le> y" by fact
  also have "y < 2 powi (ilog2 y + 1)" using ilog2_bounds [of y] assms by simp
  finally have "(2::real) powi (ilog2 x) < 2 powi (ilog2 y + 1)" .
  then have "ilog2 x < ilog2 y + 1"
    using power_int_increasing [of "ilog2 y + 1" "ilog2 x" "2::real"] by (cases "ilog2 x < ilog2 y + 1") auto
  then show ?thesis by simp
qed

lemma round_half_even_of_int [simp]: "round_half_even (of_int k) = k"
  by (simp add: round_half_even_def)

lemma round_half_even_bounds:
  "\<lfloor>x\<rfloor> \<le> round_half_even x" "round_half_even x \<le> \<lfloor>x\<rfloor> + 1"
  by (simp_all add: round_half_even_def Let_def)

lemma round_half_even_mono:
  assumes "x \<le> y"
  shows "round_half_even x \<le> round_half_even y"
proof (cases "\<lfloor>x\<rfloor> = \<lfloor>y\<rfloor>")
  case True
  then have "x - of_int \<lfloor>x\<rfloor> \<le> y - of_int \<lfloor>y\<rfloor>"
    using assms by simp
  then show ?thesis
    using True by (auto simp: round_half_even_def Let_def)
next
  case False
  then have "\<lfloor>x\<rfloor> < \<lfloor>y\<rfloor>"
    using assms floor_mono [of x y] by linarith
  then show ?thesis
    using round_half_even_bounds(2) [of x] round_half_even_bounds(1) [of y] by linarith
qed

lemma round_half_even_le_int: "x \<le> of_int k \<Longrightarrow> round_half_even x \<le> k"
  using round_half_even_mono [of x "of_int k"] by simp

lemma round_half_even_ge_int: "of_int k \<le> x \<Longrightarrow> k \<le> round_half_even x"
  using round_half_even_mono [of "of_int k" x] by simp

lemma round_half_even_nonneg: "0 \<le> x \<Longrightarrow> 0 \<le> round_half_even x"
  using round_half_even_ge_int [of 0 x] by simp

lemma two_powi_pos [simp]: "0 < (2::real) powi p"
  by (simp add: zero_less_power_int)

lemma two_powi_of_int:
  assumes "0 \<le> p"
  shows "(2::real) powi p = of_int (2 ^ nat p)"
  using assms by (simp add: power_int_def)

lemma round_double_zero [simp]: "round_double 0 = 0"
  by (simp add: round_double_def)

lemma round_double_pos_eq:
  assumes "0 < x"
  shows "round_double x =
    of_int (round_half_even (x / 2 powi (max (ilog2 x) (- 1022) - 52)))
      * 2 powi (max (ilog2 x) (- 1022) - 52)"
  using assms by (simp add: round_double_def Let_def)

lemma round_double_nonneg:
  assumes "0 \<le> x"
  shows "0 \<le> round_double x"
proof (cases "x = 0")
  case True
  then show ?thesis by simp
next
  case False
  then have pos: "0 < x" using assms by simp
  have "0 \<le> x / 2 powi (max (ilog2 x) (- 1022) - 52)"
    using pos by simp
  then have "0 \<le> round_half_even (x / 2 powi (max (ilog2 x) (- 1022) - 52))"
    by (rule round_half_even_nonneg)
  then show ?thesis
    unfolding round_double_pos_eq [OF pos] by simp
qed

lemma round_double_mono_pos:
  assumes "0 < x" "x \<le> y"
  shows "round_double x \<le> round_double y"
proof -
  have ypos: "0 < y" using assms by simp
  define ex where "ex = ilog2 x"
  define ey where "ey = ilog2 y"
  define px where "px = max ex (- 1022) - 52"
  define py where "py = max ey (- 1022) - 52"
  have rx: "round_double x = of_int (round_half_even (x / 2 powi px)) * 2 powi px"
    unfolding px_def ex_def by (rule round_double_pos_eq [OF assms(1)])
  have ry: "round_double y = of_int (round_half_even (y / 2 powi py)) * 2 powi py"
    unfolding py_def ey_def by (rule round_double_pos_eq [OF ypos])
  have exy: "ex \<le> ey"
    unfolding ex_def ey_def using assms by (rule ilog2_mono)
  then have pxy: "px \<le> py"
    by (simp add: px_def py_def)
  show ?thesis
  proof (cases "px = py")
    case True
    have "x / 2 powi py \<le> y / 2 powi py"
      using assms(2) by (simp add: divide_right_mono)
    then have "round_half_even (x / 2 powi py) \<le> round_half_even (y / 2 powi py)"
      by (rule round_half_even_mono)
    then have "(of_int (round_half_even (x / 2 powi py)) :: real) \<le> of_int (round_half_even (y / 2 powi py))"
      by simp
    then show ?thesis
      unfolding rx ry True by (simp add: mult_right_mono)
  next
    case False
    then have lt: "px < py" using pxy by simp
    then have big: "- 1022 < ey" "max ex (- 1022) < ey"
      by (auto simp: px_def py_def)
    then have py_eq: "py = ey - 52"
      by (simp add: py_def)
    define b :: real where "b = 2 powi ey"
    have xb: "x \<le> b"
    proof -
      have "x < 2 powi (ex + 1)"
        using ilog2_bounds [OF assms(1)] by (simp add: ex_def)
      also have "(2::real) powi (ex + 1) \<le> 2 powi ey"
        using big(2) by (intro power_int_increasing) simp_all
      finally show ?thesis by (simp add: b_def)
    qed
    have by': "b \<le> y"
      using ilog2_bounds [OF ypos] by (simp add: b_def ey_def)
    have upper: "round_double x \<le> b"
    proof -
      have d: "0 \<le> ey - px" unfolding px_def using big(2) by linarith
      have "b / 2 powi px = 2 powi (ey - px)"
        by (simp add: b_def power_int_diff)
      also have "\<dots> = of_int (2 ^ nat (ey - px))"
        using d by (rule two_powi_of_int)
      finally have bq: "b / 2 powi px = of_int (2 ^ nat (ey - px))" .
      have "x / 2 powi px \<le> b / 2 powi px"
        using xb by (simp add: divide_right_mono)
      then have "round_half_even (x / 2 powi px) \<le> 2 ^ nat (ey - px)"
        unfolding bq by (rule round_half_even_le_int)
      then have "(of_int (round_half_even (x / 2 powi px)) :: real) \<le> of_int (2 ^ nat (ey - px))"
        by (simp only: of_int_le_iff)
      then have "of_int (round_half_even (x / 2 powi px)) * 2 powi px \<le> (b / 2 powi px) * 2 powi px"
        unfolding bq by (simp add: mult_right_mono)
      then show ?thesis
        unfolding rx by simp
    qed
    have lower: "b \<le> round_double y"
    proof -
      have "b / 2 powi py = 2 powi (ey - py)"
        by (simp add: b_def power_int_diff)
      also have "\<dots> = of_int (2 ^ nat (ey - py))"
        by (rule two_powi_of_int) (simp add: py_eq)
      finally have bq: "b / 2 powi py = of_int (2 ^ nat (ey - py))" .
      have "b / 2 powi py \<le> y / 2 powi py"
        using by' by (simp add: divide_right_mono)
      then have "2 ^ nat (ey - py) \<le> round_half_even (y / 2 powi py)"
        unfolding bq by (rule round_half_even_ge_int)
      then have "(of_int (2 ^ nat (ey - py)) :: real) \<le> of_int (round_half_even (y / 2 powi py))"
        by (simp only: of_int_le_iff)
      then have "(b / 2 powi py) * 2 powi py \<le> of_int (round_half_even (y / 2 powi py)) * 2 powi py"
        unfolding bq by (simp add: mult_right_mono)
      then show ?thesis
        unfolding ry by simp
    qed
    show ?thesis using upper lower by linarith
  qed
qed

lemma round_double_mono:
  assumes "0 \<le> x" "x \<le> y"
  shows "round_double x \<le> round_double y"
proof (cases "x = 0")
  case True
  then show ?thesis using assms round_double_nonneg [of y] by simp
next
  case False
  then show ?thesis using assms by (intro round_double_mono_pos) simp_all
qed

lemma round_double_1: "round_double 1 = 1"
  by code_simp

lemma round_double_100: "round_double 100 = 100"
  by code_simp

lemma true_div_nonneg: "0 \<le> true_div a b"
  unfolding true_div_def by (rule round_double_nonneg) simp

lemma true_div_le_1:
  assumes "a \<le> b"
  shows "true_div a b \<le> 1"
proof -
  have "real a / real b \<le> 1"
    using assms by (cases "b = 0") (simp_all add: divide_le_eq_1)
  then have "round_double (real a / real b) \<le> round_double 1"
    by (intro round_double_mono) simp_all
  then show ?thesis
    by (simp add: true_div_def round_double_1)
qed

lemma true_div_antimono:
  assumes "0 < b" "b \<le> b'"
  shows "true_div a b' \<le> true_div a b"
proof -
  have "real a / real b' \<le> real a / real b"
    using assms by (intro frac_le) simp_all
  then show ?thesis
    unfolding true_div_def by (intro round_double_mono) simp_all
qed

lemma float_mul_mono:
  assumes "0 \<le> x" "x \<le> y" "0 \<le> c"
  shows "float_mul x c \<le> float_mul y c"
  unfolding float_mul_def using assms
  by (intro round_double_mono) (simp_all add: mult_right_mono)

lemma float_mul_nonneg: "0 \<le> x \<Longrightarrow> 0 \<le> c \<Longrightarrow> 0 \<le> float_mul x c"
  unfolding float_mul_def by (intro round_double_nonneg) simp

lemma int_of_float_mono: "0 \<le> x \<Longrightarrow> x \<le> y \<Longrightarrow> int_of_float x \<le> int_of_float y"
  by (simp add: int_of_float_def floor_mono)

lemma percent_nonneg: "0 \<le> percent v t"
proof -
  have "0 \<le> float_mul (true_div v t) 100"
    by (intro float_mul_nonneg true_div_nonneg) simp
  then show ?thesis
    by (simp add: percent_def int_of_float_def)
qed

lemma percent_le_100:
  assumes "v \<le> t"
  shows "percent v t \<le> 100"
proof -
  have "float_mul (true_div v t) 100 \<le> float_mul 1 100"
    using true_div_nonneg true_div_le_1 [OF assms] by (intro float_mul_mono) simp_all
  also have "float_mul 1 100 = 100"
    by (simp add: float_mul_def round_double_100)
  finally have le: "float_mul (true_div v t) 100 \<le> 100" .
  have "0 \<le> float_mul (true_div v t) 100"
    by (intro float_mul_nonneg true_div_nonneg) simp
  then have "int_of_float (float_mul (true_div v t) 100) \<le> int_of_float 100"
    using le by (rule int_of_float_mono)
  then show ?thesis
    by (simp add: percent_def int_of_float_def)
qed

lemma percent_antimono:
  assumes "0 < t" "t \<le> t'"
  shows "percent v t' \<le> percent v t"
proof -
  have "float_mul (true_div v t') 100 \<le> float_mul (true_div v t) 100"
    using true_div_nonneg true_div_antimono [OF assms] by (intro float_mul_mono) simp_all
  moreover have "0 \<le> float_mul (true_div v t') 100"
    by (intro float_mul_nonneg true_div_nonneg) simp
  ultimately show ?thesis
    unfolding percent_def by (intro int_of_float_mono)
qed

lemma health_score_eq:
  "health_score t v k = max 0 ((if 0 < t then percent v t else 100) - 2 * int k)"
  using percent_nonneg [of v t]
  by (simp add: health_score_def Let_def percent_def [symmetric] mult.commute)

lemma health_score_range:
  assumes "v \<le> t"
  shows "0 \<le> health_score t v k" "health_score t v k \<le> 100"
  using percent_le_100 [OF assms] by (simp_all add: health_score_eq)

lemma health_score_more_invalid:
  assumes "k \<le> k'"
  shows "health_score t v k' \<le> health_score t v k"
  using assms by (simp add: health_score_eq)

lemma health_score_more_broken:
  assumes "v \<le> t" "t \<le> t'"
  shows "health_score t' v k \<le> health_score t v k"
proof (cases "0 < t")
  case True
  then have "percent v t' \<le> percent v t"
    using assms(2) by (rule percent_antimono)
  then show ?thesis
    using True assms(2) by (simp add: health_score_eq)
next
  case False
  then have "percent v t' \<le> 100"
    using assms by (intro percent_le_100) simp
  then show ?thesis
    using False by (auto simp: health_score_eq max_def)
qed

section \<open>The health score of a run\<close>

lemma run_health_score:
  "r_health_score (validate_all (init files)) =
     health_score (r_total_links_checked (validate_all (init files)))
       (r_valid_links (validate_all (init files)))
       (length (r_invalid_requirement_ids (validate_all (init files))))"
  by (simp add: validate_all_def)

lemma run_valid_le_total:
  "r_valid_links (validate_all (init files)) \<le> r_total_links_checked (validate_all (init files))"
  using run_links [of files] by linarith

text \<open>
  Claim C1, as amended. The health score of a run is the percentage
  \<^verbatim>\<open>(valid_links / total_links) * 100\<close>, computed in double precision and truncated towards
  zero by \<^verbatim>\<open>int\<close>, when there are links, and 100 when there are none; minus 2 for each
  invalid-requirement issue, and at least 0.
\<close>

theorem health_score_truncates:
  "r_health_score (validate_all (init files)) =
     max 0 ((if 0 < r_total_links_checked (validate_all (init files))
             then percent (r_valid_links (validate_all (init files)))
                    (r_total_links_checked (validate_all (init files)))
             else 100)
            - 2 * int (length (r_invalid_requirement_ids (validate_all (init files)))))"
  unfolding run_health_score by (rule health_score_eq)

theorem health_score_truncates_witness:
  "r_total_links_checked (validate_all (init health_files)) = 3
   \<and> r_valid_links (validate_all (init health_files)) = 2
   \<and> r_health_score (validate_all (init health_files)) = 66"
proof -
  have t: "r_total_links_checked (validate_all (init health_files)) = 3"
    by code_simp
  have v: "r_valid_links (validate_all (init health_files)) = 2"
    by code_simp
  have i: "r_invalid_requirement_ids (validate_all (init health_files)) = []"
    by code_simp
  have p: "percent 2 3 = 66"
    by code_simp
  have "r_health_score (validate_all (init health_files)) = 66"
    unfolding health_score_truncates [of health_files] t v i p by simp
  then show ?thesis
    using t v by simp
qed

text \<open>
  Claim C1 as stated fails: with two valid links out of three the score is 66, and the
  percentage rounded to the nearest integer is 67.
\<close>

theorem health_score_counterexample:
  "r_health_score (validate_all (init health_files)) = 66
   \<and> spec_health_score (r_total_links_checked (validate_all (init health_files)))
        (r_valid_links (validate_all (init health_files)))
        (length (r_invalid_requirement_ids (validate_all (init health_files)))) = 67"
  by code_simp

text \<open>
  Claim C8. With the valid links never more than the links, the health score does not
  grow when links are added that are not valid, nor when invalid requirement references
  are added; in every run the valid links are at most the links checked, and the health
  score lies between 0 and 100.
\<close>

theorem health_score_monotone:
  "(v \<le> t \<and> t \<le> t' \<longrightarrow> health_score t' v k \<le> health_score t v k)
   \<and> (k \<le> k' \<longrightarrow> health_score t v k' \<le> health_score t v k)
   \<and> r_health_score (validate_all (init files)) =
       health_score (r_total_links_checked (validate_all (init files)))
         (r_valid_links (validate_all (init files)))
         (length (r_invalid_requirement_ids (validate_all (init files))))
   \<and> r_valid_links (validate_all (init files)) \<le> r_total_links_checked (validate_all (init files))
   \<and> 0 \<le> r_health_score (validate_all (init files))
   \<and> r_health_score (validate_all (init files)) \<le> 100"
  using health_score_more_broken [of v t t' k] health_score_more_invalid [of k k' t v]
    run_health_score [of files] run_valid_le_total [of files]
    health_score_range [OF run_valid_le_total [of files],
      of "length (r_invalid_requirement_ids (validate_all (init files)))"]
  by simp

theorem health_score_monotone_witness:
  "(2::nat) \<le> 3 \<and> (3::nat) \<le> 4 \<and> health_score 4 2 0 \<le> health_score 3 2 0
   \<and> (0::nat) \<le> 1 \<and> health_score 3 2 1 \<le> health_score 3 2 0
   \<and> 0 \<le> r_health_score (validate_all (init health_files))
   \<and> r_health_score (validate_all (init health_files)) \<le> 100"
  using health_score_monotone [of 2 3 4 0 1 health_files] by simp

section \<open>Header anchors\<close>

lemma code_lower_char:
  "code (lower_char c) =
     (if (65 \<le> code c \<and> code c \<le> 90) \<or> (192 \<le> code c \<and> code c \<le> 222 \<and> code c \<noteq> 215)
      then code c + 32 else code c)"
  by (simp add: lower_char_def code_def)

lemma lower_char_fixed:
  assumes "\<not> ((65 \<le> code d \<and> code d \<le> 90)
           \<or> (192 \<le> code d \<and> code d \<le> 222 \<and> code d \<noteq> 215))"
  shows "lower_char d = d"
  using assms unfolding lower_char_def by auto

lemma lower_char_idem [simp]: "lower_char (lower_char c) = lower_char c"
  by (rule lower_char_fixed) (auto simp: code_lower_char)

lemma lower_idem [simp]: "lower (lower s) = lower s"
  by (simp add: lower_def)

lemma hyphen_not_space [simp]: "\<not> is_space CHR ''-''"
  by (simp add: is_space_def code_def)

lemma trim_hyphens_Cons [simp]: "trim_hyphens (CHR ''-'' # s) = trim_hyphens s"
proof (cases "\<forall>c \<in> set s. c = CHR ''-''")
  case True
  then have e: "dropWhile (\<lambda>c. c = CHR ''-'') (rev s @ ''-'') = []"
      "dropWhile (\<lambda>c. c = CHR ''-'') (rev s) = []"
    by (simp_all add: dropWhile_eq_Nil_conv)
  show ?thesis
    unfolding trim_hyphens_def by (simp only: rev.simps e)
next
  case False
  then obtain x where "x \<in> set (rev s)" "\<not> x = CHR ''-''" by auto
  then have "dropWhile (\<lambda>c. c = CHR ''-'') (rev s @ ''-'') = dropWhile (\<lambda>c. c = CHR ''-'') (rev s) @ ''-''"
    by (rule dropWhile_append1)
  then show ?thesis by (simp add: trim_hyphens_def)
qed

lemma trim_hyphens_snoc [simp]: "trim_hyphens (s @ ''-'') = trim_hyphens s"
  by (simp add: trim_hyphens_def)

lemma spaces_to_hyphen_space:
  "is_space c \<Longrightarrow> spaces_to_hyphen (c # cs) = CHR ''-'' # spaces_to_hyphen (dropWhile is_space cs)"
  by simp

lemma spaces_to_hyphen_all_space:
  assumes "r \<noteq> []" "\<forall>c \<in> set r. is_space c"
  shows "spaces_to_hyphen r = ''-''"
proof (cases r)
  case Nil
  then show ?thesis using assms by simp
next
  case (Cons c cs)
  then have d: "dropWhile is_space cs = []" using assms by simp
  have c: "is_space c" using Cons assms by simp
  show ?thesis
    unfolding Cons by (simp only: spaces_to_hyphen.simps d c if_True)
qed

lemma spaces_to_hyphen_append:
  assumes "a = [] \<or> \<not> is_space (last a)"
  shows "spaces_to_hyphen (a @ b) = spaces_to_hyphen a @ spaces_to_hyphen b"
  using assms
proof (induction a rule: spaces_to_hyphen.induct)
  case 1
  then show ?case by simp
next
  case (2 c cs)
  show ?case
  proof (cases "is_space c")
    case True
    then have ne: "cs \<noteq> []" using "2.prems" by auto
    then have last: "\<not> is_space (last cs)" using "2.prems" by simp
    then have ex: "\<exists>x \<in> set cs. \<not> is_space x" using ne last_in_set by blast
    then obtain x where "x \<in> set cs" "\<not> is_space x" by auto
    then have dw: "dropWhile is_space (cs @ b) = dropWhile is_space cs @ b"
      by (rule dropWhile_append1)
    have dne: "dropWhile is_space cs \<noteq> []" using ex by (simp add: dropWhile_eq_Nil_conv)
    have "last (dropWhile is_space cs) = last cs"
      using dne by (metis last_appendR takeWhile_dropWhile_id)
    then have "dropWhile is_space cs = [] \<or> \<not> is_space (last (dropWhile is_space cs))"
      using last by simp
    then have "spaces_to_hyphen (dropWhile is_space cs @ b) =
        spaces_to_hyphen (dropWhile is_space cs) @ spaces_to_hyphen b"
      using "2.IH"(1) True by blast
    then show ?thesis using True dw by simp
  next
    case False
    have "cs = [] \<or> \<not> is_space (last cs)" using "2.prems" by (cases cs) auto
    then have "spaces_to_hyphen (cs @ b) = spaces_to_hyphen cs @ spaces_to_hyphen b"
      using "2.IH"(2) False by blast
    then show ?thesis using False by simp
  qed
qed

lemma trim_spaces_to_hyphen_dropWhile:
  "trim_hyphens (spaces_to_hyphen (dropWhile is_space s)) = trim_hyphens (spaces_to_hyphen s)"
proof (cases s)
  case Nil
  then show ?thesis by simp
next
  case (Cons c cs)
  show ?thesis
  proof (cases "is_space c")
    case True
    then show ?thesis using Cons by simp
  next
    case False
    then show ?thesis using Cons by simp
  qed
qed

lemma trim_spaces_to_hyphen_strip:
  "trim_hyphens (spaces_to_hyphen (strip s)) = trim_hyphens (spaces_to_hyphen s)"
proof -
  define a where "a = rev (dropWhile is_space (rev s))"
  define r where "r = rev (takeWhile is_space (rev s))"
  have s: "s = a @ r"
    unfolding a_def r_def by (metis rev_append rev_rev_ident takeWhile_dropWhile_id)
  have r: "\<forall>c \<in> set r. is_space c"
    unfolding r_def using set_takeWhileD by fastforce
  have a: "a = [] \<or> \<not> is_space (last a)"
  proof (cases "dropWhile is_space (rev s)")
    case Nil
    then show ?thesis by (simp add: a_def)
  next
    case (Cons c cs)
    then have "\<not> is_space c" using hd_dropWhile [of is_space "rev s"] by simp
    then show ?thesis using Cons by (simp add: a_def)
  qed
  have "trim_hyphens (spaces_to_hyphen s) = trim_hyphens (spaces_to_hyphen a)"
  proof (cases "r = []")
    case True
    then show ?thesis using s by simp
  next
    case False
    have "spaces_to_hyphen s = spaces_to_hyphen a @ spaces_to_hyphen r"
      unfolding s using a by (rule spaces_to_hyphen_append)
    also have "spaces_to_hyphen r = ''-''"
      using False r by (rule spaces_to_hyphen_all_space)
    finally show ?thesis by simp
  qed
  also have "\<dots> = trim_hyphens (spaces_to_hyphen (dropWhile is_space a))"
    by (rule trim_spaces_to_hyphen_dropWhile [symmetric])
  finally show ?thesis
    by (simp add: strip_def a_def)
qed

lemma set_spaces_to_hyphen:
  "set (spaces_to_hyphen s) \<subseteq> insert CHR ''-'' {c \<in> set s. \<not> is_space c}"
proof (induction s rule: spaces_to_hyphen.induct)
  case 1
  then show ?case by simp
next
  case (2 c cs)
  have "set (dropWhile is_space cs) \<subseteq> set cs" by (simp add: set_dropWhileD subsetI)
  then show ?case using 2 by auto
qed

lemma header_anchor_chars:
  assumes "c \<in> set (header_anchor t)"
  shows "\<not> is_space c \<and> (is_word c \<or> c = CHR ''-'')"
proof -
  have "c = CHR ''-'' \<or> (c \<in> set (strip (remove_special (lower t))) \<and> \<not> is_space c)"
    using assms set_spaces_to_hyphen [of "strip (remove_special (lower t))"]
    by (auto simp: header_anchor_def)
  moreover have "set (strip s) \<subseteq> set s" for s
    unfolding strip_def
    by (metis (no_types) set_dropWhileD set_rev subsetI)
  ultimately have "c = CHR ''-'' \<or> (c \<in> set (remove_special (lower t)) \<and> \<not> is_space c)"
    by blast
  then show ?thesis
    by (auto simp: remove_special_def)
qed

text \<open>
  Claim C4, as amended. The anchor of a title is the title lowercased, with the characters
  removed that are neither word characters nor white space nor hyphens, white space
  stripped at both ends, and each remaining run of white space turned into one hyphen.
  Hyphens of the title stay, also at the ends: trimming them from the anchor gives the
  anchor of the specification. The anchor does not depend on the case of the title, holds
  no white space and only word characters and hyphens, and \<^verbatim>\<open># Hello World!\<close> and
  \<^verbatim>\<open># hello world\<close> both give \<^verbatim>\<open>hello-world\<close>.
\<close>

theorem header_anchor_slug:
  "header_anchor title = spaces_to_hyphen (strip (remove_special (lower title)))
   \<and> trim_hyphens (header_anchor title) = spec_anchor title
   \<and> header_anchor (lower title) = header_anchor title
   \<and> (\<forall>c \<in> set (header_anchor title). \<not> is_space c \<and> (is_word c \<or> c = CHR ''-''))
   \<and> map header_anchor (header_scan True ''# Hello World!'') = [''hello-world'']
   \<and> map header_anchor (header_scan True ''# hello world'') = [''hello-world'']"
proof -
  have "trim_hyphens (header_anchor title) = spec_anchor title"
    unfolding header_anchor_def spec_anchor_def by (rule trim_spaces_to_hyphen_strip)
  moreover have "header_anchor (lower title) = header_anchor title"
    by (simp add: header_anchor_def)
  moreover have "\<forall>c \<in> set (header_anchor title). \<not> is_space c \<and> (is_word c \<or> c = CHR ''-'')"
    using header_anchor_chars by blast
  moreover have "map header_anchor (header_scan True ''# Hello World!'') = [''hello-world'']"
    by code_simp
  moreover have "map header_anchor (header_scan True ''# hello world'') = [''hello-world'']"
    by code_simp
  ultimately show ?thesis
    by (simp add: header_anchor_def)
qed

theorem header_anchor_slug_witness:
  "header_anchor ''Hello World!'' = ''hello-world''
   \<and> spec_anchor ''Hello World!'' = ''hello-world''
   \<and> header_anchor ''hello world!'' = ''hello-world''"
proof -
  have a: "spaces_to_hyphen (strip (remove_special (lower ''Hello World!''))) = ''hello-world''"
    by code_simp
  have l: "lower ''Hello World!'' = ''hello world!''"
    by code_simp
  have t: "trim_hyphens ''hello-world'' = ''hello-world''"
    by code_simp
  note inst = header_anchor_slug [of "''Hello World!''"]
  have h: "header_anchor ''Hello World!'' = ''hello-world''"
    by (simp only: inst [THEN conjunct1] a)
  have "spec_anchor ''Hello World!'' = trim_hyphens (header_anchor ''Hello World!'')"
    by (rule inst [THEN conjunct2, THEN conjunct1, symmetric])
  also have "\<dots> = ''hello-world''"
    unfolding h by (rule t)
  finally have s: "spec_anchor ''Hello World!'' = ''hello-world''" .
  have "header_anchor (lower ''Hello World!'') = header_anchor ''Hello World!''"
    by (rule inst [THEN conjunct2, THEN conjunct2, THEN conjunct1])
  then have c: "header_anchor ''hello world!'' = ''hello-world''"
    unfolding l h .
  show ?thesis
    using h s c by (intro conjI)
qed

text \<open>
  Claim C4 as stated fails where the title starts with a hyphen: the anchor of
  \<^verbatim>\<open># -foo\<close> is \<^verbatim>\<open>-foo\<close>, with its hyphen, and the anchor of the specification is
  \<^verbatim>\<open>foo\<close>.
\<close>

theorem header_anchor_counterexample:
  "map header_anchor (header_scan True ''# -foo'') = [''-foo'']
   \<and> spec_anchor ''-foo'' = ''foo''"
  by code_simp

section \<open>What the scans find\<close>



subsection \<open>Runs of a character class\<close>


lemma takeWhile_all: "\<forall>c \<in> set v. Q c \<Longrightarrow> takeWhile Q v = v \<and> dropWhile Q v = []"
  by (induction v) auto


lemma class_facts [simp]:
  "\<not> is_upper CHR ''-''" "\<not> is_upper CHR ''[''" "\<not> is_upper CHR '']''"
  "\<not> is_digit CHR ''-''" "\<not> is_digit CHR ''[''" "\<not> is_digit CHR '']''"
  "is_upper c \<Longrightarrow> \<not> is_digit c" "is_digit c \<Longrightarrow> \<not> is_upper c"
  by (auto simp: is_upper_def is_digit_def code_def)

lemma starts_with_Cons1 [simp]: "starts_with [x] s \<longleftrightarrow> (\<exists>t. s = x # t)"
  by (cases s) auto










lemma fold_cache_file_rest [simp]:
  "missing_anchors (fold cache_file fs v) = missing_anchors v"
  "validator.more (fold cache_file fs v) = validator.more v"
  by (induction fs arbitrary: v; simp add: cache_file_def)+


section \<open>The anchor index\<close>



section \<open>Orphaned references\<close>



end
